theory Spec2Isabelle
  imports Main "HOL-Library.Sublist" "HOL-Library.AList"
begin

section \<open>JavaScript values read from the shared configuration file\<close>

text \<open>
  The plugin (\<^verbatim>\<open>src/index.ts\<close>) reads its configuration with \<^verbatim>\<open>JSON.parse\<close> and never
  validates it, so at run time every field is just a JSON value. The model keeps that
  dynamic view. JSON numbers are modelled by integers; their string form is the decimal
  numeral, which is what JavaScript prints for every integer a double represents exactly
  below \<open>10^21\<close>. Strings are character lists.
\<close>

datatype json =
    JNull
  | JBool bool
  | JNum int
  | JStr string
  | JArr "json list"
  | JObj "(string \<times> json) list"

text \<open>
  Everything the code can throw. \<open>ENOENT\<close>, \<open>ENOTDIR\<close>, \<open>EISDIR\<close>, \<open>EBUSY\<close> and
  \<open>EACCES\<close> are the file-system errors of Node (a missing file or directory is
  \<open>ENOENT\<close>, a missing permission \<open>EACCES\<close>), \<open>SyntaxError\<close>
  is what \<^verbatim>\<open>JSON.parse\<close> throws, \<open>InvalidURL\<close> what \<^verbatim>\<open>new URL\<close> throws, and \<open>TypeError\<close>
  covers calling a method a value does not have, an argument of \<^verbatim>\<open>path.join\<close> or
  \<^verbatim>\<open>path.resolve\<close> that is not a string, and a value that has no string form.
\<close>

datatype error =
  ENOENT | ENOTDIR | EISDIR | EBUSY | EACCES | SyntaxError | TypeError | InvalidURL

subsection \<open>Coercions\<close>

definition digit_char :: "nat \<Rightarrow> char" where
  "digit_char d = char_of (48 + d)"

fun dec_nat :: "nat \<Rightarrow> string" where
  "dec_nat n = (if n < 10 then [digit_char n] else dec_nat (n div 10) @ [digit_char (n mod 10)])"

declare dec_nat.simps [simp del]

definition dec_int :: "int \<Rightarrow> string" where
  "dec_int i = (if i < 0 then CHR ''-'' # dec_nat (nat (- i)) else dec_nat (nat i))"

fun join_with :: "string \<Rightarrow> string list \<Rightarrow> string" where
  "join_with sep [] = []"
| "join_with sep [x] = x"
| "join_with sep (x # y # ys) = x @ sep @ join_with sep (y # ys)"

text \<open>
  \<^verbatim>\<open>ToString\<close>, as a template literal applies it. An array prints its elements joined
  by commas, with \<^verbatim>\<open>null\<close> elements printed as the empty string; a plain object prints as
  \<^verbatim>\<open>[object Object]\<close> unless it has an own \<^verbatim>\<open>toString\<close> member, which a JSON value
  cannot make callable, so the coercion throws.
\<close>

fun js_to_string :: "json \<Rightarrow> error + string"
  and js_elements :: "json list \<Rightarrow> error + string list" where
  "js_to_string JNull = Inr ''null''"
| "js_to_string (JBool b) = Inr (if b then ''true'' else ''false'')"
| "js_to_string (JNum n) = Inr (dec_int n)"
| "js_to_string (JStr s) = Inr s"
| "js_to_string (JArr xs) =
     (case js_elements xs of Inl e \<Rightarrow> Inl e | Inr ss \<Rightarrow> Inr (join_with '','' ss))"
| "js_to_string (JObj kvs) =
     (if ''toString'' \<in> set (map fst kvs) then Inl TypeError else Inr ''[object Object]'')"
| "js_elements [] = Inr []"
| "js_elements (x # xs) =
     (case (if x = JNull then Inr [] else js_to_string x) of
        Inl e \<Rightarrow> Inl e
      | Inr s \<Rightarrow> (case js_elements xs of Inl e \<Rightarrow> Inl e | Inr ss \<Rightarrow> Inr (s # ss)))"

text \<open>A variable that may be \<^verbatim>\<open>undefined\<close> is a \<open>json option\<close>.\<close>

definition template_string :: "json option \<Rightarrow> error + string" where
  "template_string v = (case v of None \<Rightarrow> Inr ''undefined'' | Some j \<Rightarrow> js_to_string j)"

fun truthy :: "json option \<Rightarrow> bool" where
  "truthy None = False"
| "truthy (Some JNull) = False"
| "truthy (Some (JBool b)) = b"
| "truthy (Some (JNum n)) = (n \<noteq> 0)"
| "truthy (Some (JStr s)) = (s \<noteq> [])"
| "truthy (Some (JArr xs)) = True"
| "truthy (Some (JObj kvs)) = True"

text \<open>\<^verbatim>\<open>validateString\<close> of Node's \<^verbatim>\<open>path\<close> module: anything but a string throws.\<close>

fun validateString :: "json option \<Rightarrow> error + string" where
  "validateString (Some (JStr s)) = Inr s"
| "validateString v = Inl TypeError"

subsection \<open>Objects and \<^verbatim>\<open>Object.assign\<close>\<close>

text \<open>
  An object is its list of own properties (keys distinct, as in every JavaScript object)
  and, when it has been changed, its prototype; \<open>None\<close> stands for the standard
  \<^verbatim>\<open>Object.prototype\<close>. Property lookup follows the prototype one step, which is as far as
  a chain built from parsed JSON goes. It is exact for the keys the plugin reads, none of
  which the standard prototypes define.
\<close>

record jsobj =
  own :: "(string \<times> json) list"
  proto :: "json option"

fun json_get :: "json \<Rightarrow> string \<Rightarrow> json option" where
  "json_get (JObj kvs) k = map_of kvs k"
| "json_get v k = None"

definition get :: "jsobj \<Rightarrow> string \<Rightarrow> json option" where
  "get obj k =
     (case map_of (own obj) k of
        Some v \<Rightarrow> Some v
      | None \<Rightarrow> (case proto obj of None \<Rightarrow> None | Some p \<Rightarrow> json_get p k))"

text \<open>
  The own enumerable properties \<^verbatim>\<open>Object.assign\<close> copies from its source: the members of
  an object, the indexed elements of an array, the indexed characters of a string, and
  nothing for \<^verbatim>\<open>null\<close>, a boolean or a number.
\<close>

fun own_enumerable :: "json \<Rightarrow> (string \<times> json) list" where
  "own_enumerable (JObj kvs) = kvs"
| "own_enumerable (JArr xs) = zip (map dec_nat [0 ..< length xs]) xs"
| "own_enumerable (JStr s) = zip (map dec_nat [0 ..< length s]) (map (\<lambda>c. JStr [c]) s)"
| "own_enumerable v = []"

text \<open>
  \<^verbatim>\<open>Object.assign\<close> stores each property with an ordinary assignment. Assigning to
  \<^verbatim>\<open>__proto__\<close> runs the setter of \<^verbatim>\<open>Object.prototype\<close>: an object, array or \<^verbatim>\<open>null\<close>
  becomes the target's prototype, any other value is ignored, and no own property is made.
\<close>

fun assign_prop :: "string \<times> json \<Rightarrow> jsobj \<Rightarrow> jsobj" where
  "assign_prop (k, v) obj =
     (if k = ''__proto__'' then
        (case v of
           JObj kvs \<Rightarrow> obj\<lparr>proto := Some v\<rparr>
         | JArr xs \<Rightarrow> obj\<lparr>proto := Some v\<rparr>
         | JNull \<Rightarrow> obj\<lparr>proto := Some v\<rparr>
         | _ \<Rightarrow> obj)
      else obj\<lparr>own := AList.update k v (own obj)\<rparr>)"

definition Object_assign :: "jsobj \<Rightarrow> json \<Rightarrow> jsobj" where
  "Object_assign target source = fold assign_prop (own_enumerable source) target"


section \<open>Node's \<^verbatim>\<open>path\<close> module (POSIX)\<close>

text \<open>
  \<^verbatim>\<open>path.join\<close> and \<^verbatim>\<open>path.resolve\<close> are modelled on the segments between slashes, which is
  how Node's \<^verbatim>\<open>normalizeString\<close> treats a path: empty and \<^verbatim>\<open>.\<close> segments are dropped, and
  \<^verbatim>\<open>..\<close> removes the segment before it, or is kept when there is none and the path is
  relative.
\<close>

definition isAbsolute :: "string \<Rightarrow> bool" where
  "isAbsolute p = (p \<noteq> [] \<and> hd p = CHR ''/'')"

fun split_on :: "char \<Rightarrow> string \<Rightarrow> string list" where
  "split_on c [] = ['''']"
| "split_on c (x # xs) =
     (if x = c then [] # split_on c xs
      else (case split_on c xs of [] \<Rightarrow> [x # ''''] | w # ws \<Rightarrow> (x # w) # ws))"

fun normalizeString :: "string list \<Rightarrow> bool \<Rightarrow> string list \<Rightarrow> string list" where
  "normalizeString [] allowAboveRoot res = res"
| "normalizeString (s # ss) allowAboveRoot res =
     (if s = [] \<or> s = ''.'' then normalizeString ss allowAboveRoot res
      else if s = ''..'' then
        (if res \<noteq> [] \<and> last res \<noteq> ''..'' then normalizeString ss allowAboveRoot (butlast res)
         else if allowAboveRoot then normalizeString ss allowAboveRoot (res @ [''..''])
         else normalizeString ss allowAboveRoot res)
      else normalizeString ss allowAboveRoot (res @ [s]))"

definition path_normalize :: "string \<Rightarrow> string" where
  "path_normalize p =
     (if p = [] then ''.''
      else
        (let trailingSeparator = (last p = CHR ''/'');
             segs = normalizeString (split_on CHR ''/'' p) (\<not> isAbsolute p) []
         in if segs = [] then (if isAbsolute p then ''/'' else if trailingSeparator then ''./'' else ''.'')
            else (if isAbsolute p then ''/'' else []) @ join_with ''/'' segs
                 @ (if trailingSeparator then ''/'' else [])))"

definition path_join :: "string list \<Rightarrow> string" where
  "path_join args =
     (let joined = join_with ''/'' (filter (\<lambda>a. a \<noteq> []) args)
      in if joined = [] then ''.'' else path_normalize joined)"

text \<open>
  \<^verbatim>\<open>path.resolve\<close> reads its arguments from the right until one is absolute and falls back
  on the working directory; read from the left, an absolute argument discards what came
  before it. The first element of the fold is the working directory.
\<close>

definition path_resolve :: "string \<Rightarrow> string list \<Rightarrow> string" where
  "path_resolve cwd args =
     (let resolvedPath =
            fold (\<lambda>p acc. if p = [] then acc
                           else if isAbsolute p then p @ ''/''
                           else acc @ p @ ''/'') (cwd # args) [];
          segs = normalizeString (split_on CHR ''/'' resolvedPath) (\<not> isAbsolute resolvedPath) []
      in if isAbsolute resolvedPath then ''/'' @ join_with ''/'' segs
         else if segs = [] then ''.'' else join_with ''/'' segs)"

section \<open>The file system\<close>

text \<open>
  A directory is the ordered list of its entries, in the order \<^verbatim>\<open>readdirSync\<close> lists them.
  \<open>Dangling\<close> is a symbolic link whose target does not exist: its directory lists it,
  and following it fails with \<open>ENOENT\<close>. A symbolic link whose target exists is not
  modelled.
\<close>

datatype node = File string | Dir "(string \<times> node) list" | Dangling

fun lookup :: "node \<Rightarrow> string list \<Rightarrow> node option" where
  "lookup n [] = Some n"
| "lookup (File c) (s # p) = None"
| "lookup Dangling (s # p) = None"
| "lookup (Dir es) (s # p) = (case map_of es s of None \<Rightarrow> None | Some ch \<Rightarrow> lookup ch p)"

text \<open>
  How the operating system follows the segments of a path from the directory \<open>cs\<close>: every
  segment, also an empty one or a dot, needs a directory to be looked up in.
\<close>

fun canonical :: "node \<Rightarrow> string list \<Rightarrow> string list \<Rightarrow> error + string list" where
  "canonical r cs [] = Inr cs"
| "canonical r cs (s # ss) =
     (case lookup r cs of
        None \<Rightarrow> Inl ENOENT
      | Some (File c) \<Rightarrow> Inl ENOTDIR
      | Some Dangling \<Rightarrow> Inl ENOENT
      | Some (Dir es) \<Rightarrow>
          (if s = [] \<or> s = ''.'' then canonical r cs ss
           else if s = ''..'' then canonical r (butlast cs) ss
           else (case map_of es s of
                   None \<Rightarrow> Inl ENOENT
                 | Some ch \<Rightarrow> canonical r (cs @ [s]) ss)))"

text \<open>
  Removing what is at a path, with all that is below it. The path is followed as \<open>lookup\<close>
  follows it; nothing changes when it leads nowhere.
\<close>

fun remove :: "node \<Rightarrow> string list \<Rightarrow> node" where
  "remove n [] = n"
| "remove (File c) (s # p) = File c"
| "remove Dangling (s # p) = Dangling"
| "remove (Dir es) (s # p) =
     (if p = [] then Dir (AList.delete s es)
      else Dir (AList.map_entry s (\<lambda>ch. remove ch p) es))"

text \<open>
  What the module reads from its process: the working directory, the environment variable
  \<^verbatim>\<open>LUCKY_ENV\<close>, the disk, and the two built-in parsers, which are not part of the
  repository and are taken as they are: \<^verbatim>\<open>JSON.parse\<close> (\<open>None\<close> when it throws a
  \<^verbatim>\<open>SyntaxError\<close>) and \<^verbatim>\<open>new URL\<close> (\<open>None\<close> when it throws). \<open>rm_refused\<close> is the
  answer of the operating system when the process asks to remove what is at a place:
  \<open>None\<close> when it lets it, and the error, \<open>EACCES\<close> for a missing permission, when it
  does not.
\<close>

record url =
  url_hostname :: string
  url_port :: string
  url_protocol :: string

record process =
  cwd :: string
  env_LUCKY_ENV :: "string option"
  disk :: node
  JSON_parse :: "string \<Rightarrow> json option"
  new_URL :: "string \<Rightarrow> url option"
  rm_refused :: "string list \<Rightarrow> error option"

definition realpath :: "process \<Rightarrow> string \<Rightarrow> error + string list" where
  "realpath ps p =
     (if p = [] then Inl ENOENT
      else canonical (disk ps) []
             (split_on CHR ''/'' (if isAbsolute p then p else cwd ps @ ''/'' @ p)))"

text \<open>\<^verbatim>\<open>existsSync\<close> follows a symbolic link, so a dangling one does not exist.\<close>

definition existsSync :: "process \<Rightarrow> string \<Rightarrow> bool" where
  "existsSync ps p =
     (case realpath ps p of
        Inl e \<Rightarrow> False
      | Inr cs \<Rightarrow>
          (case lookup (disk ps) cs of
             None \<Rightarrow> False
           | Some Dangling \<Rightarrow> False
           | Some (File c) \<Rightarrow> True
           | Some (Dir es) \<Rightarrow> True))"

definition readFileSync :: "process \<Rightarrow> string \<Rightarrow> error + string" where
  "readFileSync ps p =
     (case realpath ps p of
        Inl e \<Rightarrow> Inl e
      | Inr cs \<Rightarrow>
          (case lookup (disk ps) cs of
             None \<Rightarrow> Inl ENOENT
           | Some Dangling \<Rightarrow> Inl ENOENT
           | Some (Dir es) \<Rightarrow> Inl EISDIR
           | Some (File c) \<Rightarrow> Inr c))"

definition readdirSync :: "process \<Rightarrow> string \<Rightarrow> error + string list" where
  "readdirSync ps p =
     (case realpath ps p of
        Inl e \<Rightarrow> Inl e
      | Inr cs \<Rightarrow>
          (case lookup (disk ps) cs of
             None \<Rightarrow> Inl ENOENT
           | Some Dangling \<Rightarrow> Inl ENOENT
           | Some (File c) \<Rightarrow> Inl ENOTDIR
           | Some (Dir es) \<Rightarrow> Inr (map fst es)))"

text \<open>
  \<^verbatim>\<open>rmSync(path, { recursive, force })\<close> returns the disk it leaves. It does not follow a
  symbolic link at the end of the path. With \<^verbatim>\<open>force\<close> a missing path is not an error; a
  directory needs \<^verbatim>\<open>recursive\<close>; the root cannot be removed; and the removal fails with
  the error of the operating system when that refuses it.
\<close>

definition unlink :: "process \<Rightarrow> string list \<Rightarrow> error + node" where
  "unlink ps cs =
     (case rm_refused ps cs of
        Some e \<Rightarrow> Inl e
      | None \<Rightarrow> Inr (remove (disk ps) cs))"

definition rmSync :: "process \<Rightarrow> string \<Rightarrow> bool \<Rightarrow> bool \<Rightarrow> error + node" where
  "rmSync ps p recursive force =
     (case realpath ps p of
        Inl e \<Rightarrow> (if force \<and> e = ENOENT then Inr (disk ps) else Inl e)
      | Inr cs \<Rightarrow>
          (case lookup (disk ps) cs of
             None \<Rightarrow> (if force then Inr (disk ps) else Inl ENOENT)
           | Some (File c) \<Rightarrow> unlink ps cs
           | Some Dangling \<Rightarrow> unlink ps cs
           | Some (Dir es) \<Rightarrow>
               (if \<not> recursive then Inl EISDIR
                else if cs = [] then Inl EBUSY
                else unlink ps cs)))"

section \<open>Regular expressions\<close>

text \<open>
  The four regular expressions of the source use only literals, alternation and the
  optional \<^verbatim>\<open>?\<close>, so each matches finitely many words. \<^verbatim>\<open>/r/.test(s)\<close> asks for one of
  them anywhere in \<open>s\<close>, \<^verbatim>\<open>/r$/.test(s)\<close> for one of them at the end of \<open>s\<close>.
\<close>

datatype regex = Lit string | Alt regex regex | Seq regex regex | Opt regex

fun words :: "regex \<Rightarrow> string list" where
  "words (Lit s) = [s]"
| "words (Alt a b) = words a @ words b"
| "words (Seq a b) = concat (map (\<lambda>x. map (\<lambda>y. x @ y) (words b)) (words a))"
| "words (Opt a) = words a @ ['''']"

definition regex_test :: "regex \<Rightarrow> string \<Rightarrow> bool" where
  "regex_test r s = list_ex (\<lambda>w. sublist w s) (words r)"

definition regex_test_end :: "regex \<Rightarrow> string \<Rightarrow> bool" where
  "regex_test_end r s = list_ex (\<lambda>w. suffix w s) (words r)"

section \<open>The plugin\<close>

definition LUCKY_ENV :: "process \<Rightarrow> string" where
  "LUCKY_ENV ps =
     (case env_LUCKY_ENV ps of
        None \<Rightarrow> ''development''
      | Some v \<Rightarrow> (if v = [] then ''development'' else v))"

text \<open>
  \<^verbatim>\<open>LUCKY_ROOT\<close> is the working directory when the module is loaded. The process does not
  change its working directory, so it is also the one \<^verbatim>\<open>path.resolve\<close> falls back on.
\<close>

definition LUCKY_ROOT :: "process \<Rightarrow> string" where
  "LUCKY_ROOT ps = cwd ps"

definition config_defaults :: jsobj where
  "config_defaults =
     \<lparr>own = [(''outDir'', JStr ''public''),
             (''entry'', JStr ''entry''),
             (''host'', JStr ''127.0.0.1''),
             (''port'', JNum 3010),
             (''root'', JStr ''src/js''),
             (''aliases'', JArr [JStr ''js'', JStr ''css'', JStr ''images'', JStr ''fonts''])],
      proto = None\<rparr>"

definition loadConfig :: "process \<Rightarrow> string \<Rightarrow> error + jsobj" where
  "loadConfig ps configPath =
     (case readFileSync ps configPath of
        Inl e \<Rightarrow> Inl e
      | Inr text \<Rightarrow>
          (case JSON_parse ps text of
             None \<Rightarrow> Inl SyntaxError
           | Some parsed \<Rightarrow> Inr (Object_assign config_defaults parsed)))"

record alias_entry =
  alias_find :: string
  alias_replacement :: string

fun resolveAliases_map :: "process \<Rightarrow> json list \<Rightarrow> error + alias_entry list" where
  "resolveAliases_map ps [] = Inr []"
| "resolveAliases_map ps (a # as) =
     (case js_to_string a of
        Inl e \<Rightarrow> Inl e
      | Inr s \<Rightarrow>
          (case resolveAliases_map ps as of
             Inl e \<Rightarrow> Inl e
           | Inr rest \<Rightarrow>
               Inr (\<lparr>alias_find = ''@'' @ s,
                     alias_replacement = path_resolve (cwd ps) [LUCKY_ROOT ps, ''src/'' @ s]\<rparr> # rest)))"

text \<open>
  The default \<^verbatim>\<open>dirs = []\<close> applies to \<^verbatim>\<open>undefined\<close> only; any other value that is not
  an array has no \<^verbatim>\<open>map\<close> method.
\<close>

fun resolveAliases :: "process \<Rightarrow> json option \<Rightarrow> error + alias_entry list" where
  "resolveAliases ps None = Inr []"
| "resolveAliases ps (Some (JArr dirs)) = resolveAliases_map ps dirs"
| "resolveAliases ps (Some v) = Inl TypeError"

record server =
  server_origin :: json
  server_host :: string
  server_port :: string
  server_https :: bool

definition origin_template :: "json option \<Rightarrow> json option \<Rightarrow> json option \<Rightarrow> error + string" where
  "origin_template https host port =
     (case template_string host of
        Inl e \<Rightarrow> Inl e
      | Inr h \<Rightarrow>
          (case template_string port of
             Inl e \<Rightarrow> Inl e
           | Inr p \<Rightarrow> Inr (''http'' @ (if truthy https then ''s'' else []) @ ''://'' @ h @ '':'' @ p)))"

definition configureServer :: "process \<Rightarrow> jsobj \<Rightarrow> error + server" where
  "configureServer ps config =
     (let https = (case get config ''https'' of None \<Rightarrow> Some (JBool False) | Some v \<Rightarrow> Some v);
          host = (case get config ''host'' of Some (JBool b) \<Rightarrow> Some (JStr ''0.0.0.0'') | v \<Rightarrow> v);
          port = get config ''port'';
          origin = (case get config ''origin'' of
                      None \<Rightarrow> map_sum id JStr (origin_template https host port)
                    | Some v \<Rightarrow> (if truthy (Some v) then Inr v
                                  else map_sum id JStr (origin_template https host port)))
      in case origin of
           Inl e \<Rightarrow> Inl e
         | Inr origin \<Rightarrow>
             (case js_to_string origin of
                Inl e \<Rightarrow> Inl e
              | Inr href \<Rightarrow>
                  (case new_URL ps href of
                     None \<Rightarrow> Inl InvalidURL
                   | Some uri \<Rightarrow>
                       Inr \<lparr>server_origin = origin,
                            server_host = url_hostname uri,
                            server_port = url_port uri,
                            server_https = (url_protocol uri = ''https:'')\<rparr>)))"

definition findEntryScripts :: "process \<Rightarrow> string \<Rightarrow> error + string list" where
  "findEntryScripts ps root =
     (case readdirSync ps (path_resolve (cwd ps) [root]) of
        Inl e \<Rightarrow> Inl e
      | Inr entries \<Rightarrow>
          Inr (map (\<lambda>entry. path_resolve (cwd ps) [path_join [root, entry]]) entries))"

definition formatAssetFilePath :: "string option \<Rightarrow> string option \<Rightarrow> string" where
  "formatAssetFilePath dir ext =
     (let name = ''[name].[hash]'' @ (case ext of None \<Rightarrow> ''[extname]'' | Some e \<Rightarrow> e)
      in case dir of
           None \<Rightarrow> name
         | Some d \<Rightarrow> (if d \<noteq> [] then d @ ''/'' @ name else name))"

definition image_regex :: regex where
  "image_regex =
     Seq (Lit ''.'')
       (Alt (Lit ''gif'')
         (Alt (Seq (Lit ''jp'') (Seq (Opt (Lit ''e'')) (Lit ''g'')))
           (Alt (Lit ''png'') (Alt (Lit ''webp'') (Alt (Lit ''avif'') (Lit ''svg''))))))"

definition css_regex :: regex where
  "css_regex = Seq (Lit ''.'') (Lit ''css'')"

definition font_regex :: regex where
  "font_regex = Seq (Lit ''.woff'') (Opt (Lit ''2''))"

definition env_regex :: regex where
  "env_regex = Alt (Lit ''test'') (Lit ''development'')"

definition determineAssetFilePath :: "string option \<Rightarrow> string" where
  "determineAssetFilePath asset_name =
     (let name = (case asset_name of None \<Rightarrow> [] | Some n \<Rightarrow> n)
      in if regex_test_end image_regex name then formatAssetFilePath (Some ''images'') None
         else if regex_test_end css_regex name then formatAssetFilePath (Some ''css'') None
         else if regex_test_end font_regex name then formatAssetFilePath (Some ''fonts'') None
         else formatAssetFilePath None None)"

text \<open>
  The object the default export returns: its name and the two variables its hooks close
  over.
\<close>

record plugin =
  plugin_name :: string
  plugin_config :: jsobj
  plugin_root :: string

definition LuckyPlugin :: "process \<Rightarrow> string option \<Rightarrow> error + plugin" where
  "LuckyPlugin ps options =
     (let configPath = (case options of None \<Rightarrow> ''config/lucky_vite.json'' | Some p \<Rightarrow> p)
      in case loadConfig ps configPath of
           Inl e \<Rightarrow> Inl e
         | Inr config \<Rightarrow>
             (case validateString (get config ''root'') of
                Inl e \<Rightarrow> Inl e
              | Inr r \<Rightarrow>
                  (case validateString (get config ''entry'') of
                     Inl e \<Rightarrow> Inl e
                   | Inr en \<Rightarrow>
                       Inr \<lparr>plugin_name = ''vite-plugin-lucky'',
                            plugin_config = config,
                            plugin_root = path_join [LUCKY_ROOT ps, r, en]\<rparr>)))"

text \<open>The configuration the \<^verbatim>\<open>config\<close> hook returns, its nested objects flattened.\<close>

record vite_config =
  config_root :: string
  resolve_alias :: "alias_entry list"
  config_server :: server
  build_outDir :: string
  build_sourcemap :: bool
  build_emptyOutDir :: bool
  build_manifest :: bool
  rollup_input :: "string list"
  entryFileNames :: string
  chunkFileNames :: string
  assetFileNames :: "string option \<Rightarrow> string"

definition config_hook :: "process \<Rightarrow> plugin \<Rightarrow> error + vite_config" where
  "config_hook ps pl =
     (case resolveAliases ps (get (plugin_config pl) ''aliases'') of
        Inl e \<Rightarrow> Inl e
      | Inr aliases \<Rightarrow>
          (case configureServer ps (plugin_config pl) of
             Inl e \<Rightarrow> Inl e
           | Inr srv \<Rightarrow>
               (case validateString (get (plugin_config pl) ''outDir'') of
                  Inl e \<Rightarrow> Inl e
                | Inr od \<Rightarrow>
                    (case findEntryScripts ps (plugin_root pl) of
                       Inl e \<Rightarrow> Inl e
                     | Inr scripts \<Rightarrow>
                         Inr \<lparr>config_root = plugin_root pl,
                              resolve_alias = aliases,
                              config_server = srv,
                              build_outDir = path_resolve (cwd ps) [LUCKY_ROOT ps, od],
                              build_sourcemap = (\<not> regex_test env_regex (LUCKY_ENV ps)),
                              build_emptyOutDir = False,
                              build_manifest = True,
                              rollup_input = scripts,
                              entryFileNames = formatAssetFilePath (Some ''js'') (Some ''.js''),
                              chunkFileNames = formatAssetFilePath (Some ''js'') (Some ''.js''),
                              assetFileNames = determineAssetFilePath\<rparr>))))"

definition dirsToClean :: "string list" where
  "dirsToClean = [''js'', ''css'', ''images'', ''fonts'', ''.vite'']"

text \<open>The loop of \<^verbatim>\<open>buildStart\<close>; each round sees the disk the round before left.\<close>

fun buildStart_loop :: "process \<Rightarrow> string \<Rightarrow> string list \<Rightarrow> error + node" where
  "buildStart_loop ps outDir [] = Inr (disk ps)"
| "buildStart_loop ps outDir (dir # dirs) =
     (let fullPath = path_join [outDir, dir]
      in if existsSync ps fullPath then
           (case rmSync ps fullPath True True of
              Inl e \<Rightarrow> Inl e
            | Inr d \<Rightarrow> buildStart_loop (ps\<lparr>disk := d\<rparr>) outDir dirs)
         else buildStart_loop ps outDir dirs)"

definition buildStart :: "process \<Rightarrow> plugin \<Rightarrow> error + node" where
  "buildStart ps pl =
     (case validateString (get (plugin_config pl) ''outDir'') of
        Inl e \<Rightarrow> Inl e
      | Inr od \<Rightarrow> buildStart_loop ps (path_resolve (cwd ps) [LUCKY_ROOT ps, od]) dirsToClean)"


section \<open>Notions used to state the properties\<close>

text \<open>
  The name of a directory entry: not empty, not \<^verbatim>\<open>.\<close> or \<^verbatim>\<open>..\<close>, and without a slash.
\<close>

definition is_name :: "string \<Rightarrow> bool" where
  "is_name s = (s \<noteq> [] \<and> s \<noteq> ''.'' \<and> s \<noteq> ''..'' \<and> CHR ''/'' \<notin> set s)"

text \<open>The absolute path made of the given names, and the names along a path.\<close>

definition abs_path :: "string list \<Rightarrow> string" where
  "abs_path segs = ''/'' @ join_with ''/'' segs"

definition path_segments :: "string \<Rightarrow> string list" where
  "path_segments p = filter (\<lambda>s. s \<noteq> []) (split_on CHR ''/'' p)"

text \<open>
  A directory without its entry \<open>d\<close>, unless that entry is a dangling link, and a change
  made to the node at a path.
\<close>

fun without :: "string \<Rightarrow> node \<Rightarrow> node" where
  "without d (File c) = File c"
| "without d Dangling = Dangling"
| "without d (Dir es) = (if map_of es d = Some Dangling then Dir es else Dir (AList.delete d es))"

fun modify_at :: "(node \<Rightarrow> node) \<Rightarrow> node \<Rightarrow> string list \<Rightarrow> node" where
  "modify_at f n [] = f n"
| "modify_at f (File c) (s # p) = File c"
| "modify_at f Dangling (s # p) = Dangling"
| "modify_at f (Dir es) (s # p) = Dir (AList.map_entry s (\<lambda>ch. modify_at f ch p) es)"


section \<open>Sample inputs\<close>

text \<open>
  A small project in \<^verbatim>\<open>/app\<close>, used to run the definitions: a configuration file that
  sets two keys, a second file that is not JSON, two entry scripts, and an output
  directory left by an earlier build. The two parsers are given on the texts that occur,
  and no removal is refused.
\<close>

definition sample_text :: string where
  \<open>sample_text = ''{"port": 4000, "aliases": ["app"]}''\<close>

definition sample_members :: "(string \<times> json) list" where
  "sample_members = [(''port'', JNum 4000), (''aliases'', JArr [JStr ''app''])]"

definition sample_JSON_parse :: "string \<Rightarrow> json option" where
  "sample_JSON_parse s =
     (if s = sample_text then Some (JObj sample_members)
      else if s = ''{}'' then Some (JObj [])
      else None)"

definition sample_new_URL :: "string \<Rightarrow> url option" where
  "sample_new_URL s =
     (if s = ''http://127.0.0.1:4000'' then
        Some \<lparr>url_hostname = ''127.0.0.1'', url_port = ''4000'', url_protocol = ''http:''\<rparr>
      else if s = ''http://localhost:3010'' then
        Some \<lparr>url_hostname = ''localhost'', url_port = ''3010'', url_protocol = ''http:''\<rparr>
      else if s = ''http://0.0.0.0:3010'' then
        Some \<lparr>url_hostname = ''0.0.0.0'', url_port = ''3010'', url_protocol = ''http:''\<rparr>
      else if s = ''https://0.0.0.0:3010'' then
        Some \<lparr>url_hostname = ''0.0.0.0'', url_port = ''3010'', url_protocol = ''https:''\<rparr>
      else if s = ''https://assets.example.com:8443'' then
        Some \<lparr>url_hostname = ''assets.example.com'', url_port = ''8443'',
              url_protocol = ''https:''\<rparr>
      else None)"

definition sample_disk :: node where
  "sample_disk =
     Dir [(''app'', Dir [
       (''config'', Dir [(''lucky_vite.json'', File sample_text), (''broken.json'', File ''{'')]),
       (''src'', Dir [(''js'', Dir [(''entry'', Dir [(''main.js'', File ''// main''),
                                                     (''admin.js'', File ''// admin'')])])]),
       (''public'', Dir [(''js'', Dir [(''main.4f2a.js'', File ''// built'')]),
                         (''favicon.ico'', File ''icon''),
                         (''css'', Dir []),
                         (''images'', Dir [(''logo.9c1d.svg'', File ''<svg/>'')]),
                         (''fonts'', Dir [(''body.77aa.woff2'', File ''font'')]),
                         (''.vite'', Dir [(''manifest.json'', File ''{}'')])])])]"

definition sample_process :: process where
  "sample_process =
     \<lparr>cwd = ''/app'', env_LUCKY_ENV = None, disk = sample_disk,
      JSON_parse = sample_JSON_parse, new_URL = sample_new_URL,
      rm_refused = (\<lambda>place. None)\<rparr>"

text \<open>The plugin that \<open>LuckyPlugin sample_process None\<close> returns.\<close>

definition sample_plugin :: plugin where
  "sample_plugin =
     \<lparr>plugin_name = ''vite-plugin-lucky'',
      plugin_config =
        \<lparr>own = [(''outDir'', JStr ''public''),
                (''entry'', JStr ''entry''),
                (''host'', JStr ''127.0.0.1''),
                (''port'', JNum 4000),
                (''root'', JStr ''src/js''),
                (''aliases'', JArr [JStr ''app''])],
         proto = None\<rparr>,
      plugin_root = ''/app/src/js/entry''\<rparr>"

text \<open>A configuration object with the given host and port, and further members.\<close>

definition server_config :: "json \<Rightarrow> json \<Rightarrow> (string \<times> json) list \<Rightarrow> jsobj" where
  "server_config h p members = \<lparr>own = [(''host'', h), (''port'', p)] @ members, proto = None\<rparr>"

section \<open>Lemmas\<close>

subsection \<open>Merging the parsed file over the defaults\<close>

lemma own_fold_assign:
  "k \<noteq> ''__proto__'' \<Longrightarrow> distinct (map fst kvs) \<Longrightarrow>
   map_of (own (fold assign_prop kvs t)) k =
     (case map_of kvs k of Some v \<Rightarrow> Some v | None \<Rightarrow> map_of (own t) k)"
proof (induction kvs arbitrary: t)
  case Nil
  then show ?case by simp
next
  case (Cons kv kvs)
  obtain a b where kv: "kv = (a, b)" by (cases kv)
  have d: "distinct (map fst kvs)" and na: "a \<notin> fst ` set kvs"
    using Cons.prems(2) kv by auto
  have ih: "map_of (own (fold assign_prop kvs (assign_prop kv t))) k =
     (case map_of kvs k of Some v \<Rightarrow> Some v | None \<Rightarrow> map_of (own (assign_prop kv t)) k)"
    using Cons.IH [OF Cons.prems(1) d] .
  show ?case
  proof (cases "a = k")
    case True
    then have "map_of kvs k = None" using na by (simp add: map_of_eq_None_iff)
    moreover have "map_of (own (assign_prop kv t)) k = Some b"
      using True Cons.prems(1) kv by (simp add: update_conv')
    ultimately show ?thesis using ih True kv by simp
  next
    case False
    have h: "map_of (own (assign_prop kv t)) k = map_of (own t) k"
      using False kv by (cases b) (simp_all add: update_conv')
    have "map_of (kv # kvs) k = map_of kvs k" using False kv by simp
    then show ?thesis using ih by (simp add: h del: assign_prop.simps split: option.splits)
  qed
qed

lemma get_own: "map_of (own obj) k = Some v \<Longrightarrow> get obj k = Some v"
  by (simp add: get_def)

lemma merged_own:
  assumes "k \<noteq> ''__proto__''" and "distinct (map fst members)"
  shows "map_of (own (Object_assign config_defaults (JObj members))) k =
     (case map_of members k of Some v \<Rightarrow> Some v | None \<Rightarrow> map_of (own config_defaults) k)"
  using own_fold_assign [OF assms] by (simp add: Object_assign_def)

subsection \<open>Splitting and normalising paths\<close>

lemma split_on_not_Nil [simp]: "split_on c s \<noteq> []"
  by (induction s) (auto split: list.splits)

lemma split_on_append: "split_on c (xs @ c # ys) = split_on c xs @ split_on c ys"
proof (induction xs)
  case Nil
  then show ?case by simp
next
  case (Cons x xs)
  then show ?case
    by (cases "split_on c xs") (auto split: list.splits)
qed

lemma split_on_free: "w \<in> set (split_on c s) \<Longrightarrow> c \<notin> set w"
proof (induction s arbitrary: w)
  case Nil
  then show ?case by simp
next
  case (Cons x s)
  then show ?case
    by (cases "split_on c s") (auto split: if_splits)
qed

lemma split_on_no_sep: "c \<notin> set s \<Longrightarrow> split_on c s = [s]"
  by (induction s) auto

lemma split_join:
  "ws \<noteq> [] \<Longrightarrow> \<forall>w\<in>set ws. CHR ''/'' \<notin> set w \<Longrightarrow>
   split_on CHR ''/'' (join_with ''/'' ws) = ws"
proof (induction ws)
  case Nil
  then show ?case by simp
next
  case (Cons x ws)
  show ?case
  proof (cases ws)
    case Nil
    then show ?thesis using Cons.prems by (simp add: split_on_no_sep)
  next
    case (Cons y ys)
    have "split_on CHR ''/'' (x @ CHR ''/'' # join_with ''/'' (y # ys)) =
          split_on CHR ''/'' x @ split_on CHR ''/'' (join_with ''/'' (y # ys))"
      by (rule split_on_append)
    then show ?thesis using Cons.IH Cons.prems Cons by (simp add: split_on_no_sep)
  qed
qed

lemma split_snoc_slash: "split_on CHR ''/'' (p @ ''/'') = split_on CHR ''/'' p @ ['''']"
  using split_on_append [of "CHR ''/''" p "[]"] by simp

lemma normalizeString_append:
  "normalizeString (ss @ ts) a res = normalizeString ts a (normalizeString ss a res)"
  by (induction ss a res rule: normalizeString.induct) auto

lemma normalizeString_names:
  "\<forall>s\<in>set ss. is_name s \<Longrightarrow> normalizeString ss a res = res @ ss"
  by (induction ss a res rule: normalizeString.induct) (auto simp: is_name_def)

lemma normalizeString_absolute_names:
  "\<forall>s\<in>set ss. CHR ''/'' \<notin> set s \<Longrightarrow> \<forall>s\<in>set res. is_name s \<Longrightarrow>
   \<forall>s\<in>set (normalizeString ss False res). is_name s"
proof (induction ss arbitrary: res)
  case Nil
  then show ?case by simp
next
  case (Cons s ss)
  have rest: "\<forall>s\<in>set ss. CHR ''/'' \<notin> set s" and here: "CHR ''/'' \<notin> set s"
    using Cons.prems(1) by simp_all
  have bl: "\<forall>s\<in>set (butlast res). is_name s"
    using Cons.prems(2) by (auto dest: in_set_butlastD)
  consider "s = [] \<or> s = ''.''" | "s = ''..''" | "is_name s"
    using here by (auto simp: is_name_def)
  then show ?case
  proof cases
    case 1
    then show ?thesis using Cons.IH [OF rest Cons.prems(2)] by auto
  next
    case 2
    then show ?thesis
      using Cons.IH [OF rest Cons.prems(2)] Cons.IH [OF rest bl] by simp
  next
    case 3
    then have "\<forall>x\<in>set (res @ [s]). is_name x" using Cons.prems(2) by simp
    from Cons.IH [OF rest this] 3 show ?thesis by (simp add: is_name_def)
  qed
qed

lemma normalizeString_snoc_name:
  "is_name n \<Longrightarrow> normalizeString (ss @ [n]) a res = normalizeString ss a res @ [n]"
  by (simp add: normalizeString_append is_name_def)

lemma normalizeString_all:
  "\<forall>s\<in>set ss. s \<noteq> [] \<longrightarrow> P s \<Longrightarrow> \<forall>s\<in>set res. P s \<Longrightarrow> P ''..'' \<Longrightarrow>
   \<forall>s\<in>set (normalizeString ss a res). P s"
proof (induction ss arbitrary: res)
  case Nil
  then show ?case by simp
next
  case (Cons s ss)
  have rest: "\<forall>s\<in>set ss. s \<noteq> [] \<longrightarrow> P s" using Cons.prems(1) by simp
  have bl: "\<forall>s\<in>set (butlast res). P s"
    using Cons.prems(2) by (auto dest: in_set_butlastD)
  have up: "\<forall>x\<in>set (res @ [''..'']). P x" using Cons.prems(2,3) by simp
  have app: "s \<noteq> [] \<Longrightarrow> \<forall>x\<in>set (res @ [s]). P x" using Cons.prems(1,2) by simp
  show ?case
    using Cons.IH [OF rest Cons.prems(2) Cons.prems(3)] Cons.IH [OF rest bl Cons.prems(3)]
      Cons.IH [OF rest up Cons.prems(3)] Cons.IH [OF rest app Cons.prems(3)]
    by simp
qed

lemma normalizeString_no_slash:
  "\<forall>s\<in>set ss. CHR ''/'' \<notin> set s \<Longrightarrow>
   \<forall>s\<in>set (normalizeString ss a []). CHR ''/'' \<notin> set s"
  using normalizeString_all [of ss "\<lambda>s. CHR ''/'' \<notin> set s" "[]" a] by simp

lemma normalizeString_nonempty: "\<forall>s\<in>set (normalizeString ss a []). s \<noteq> []"
  using normalizeString_all [of ss "\<lambda>s. s \<noteq> []" "[]" a] by simp

text \<open>
  A relative path may be normalised before it is resolved against a directory. The
  accumulator of the first pass has the shape a relative path normalises to: some \<^verbatim>\<open>..\<close>
  segments, then names.
\<close>

lemma normalizeString_twice:
  assumes "\<forall>s\<in>set ss. CHR ''/'' \<notin> set s"
    and "\<exists>k ns. Y = replicate k ''..'' @ ns \<and> (\<forall>s\<in>set ns. is_name s)"
  shows "normalizeString (normalizeString ss True Y) False C =
         normalizeString ss False (normalizeString Y False C)"
  using assms
proof (induction ss arbitrary: Y)
  case Nil
  then show ?case by simp
next
  case (Cons s ss)
  have rest: "\<forall>s\<in>set ss. CHR ''/'' \<notin> set s" and here: "CHR ''/'' \<notin> set s"
    using Cons.prems(1) by simp_all
  obtain k ns where Y: "Y = replicate k ''..'' @ ns" and ns: "\<forall>s\<in>set ns. is_name s"
    using Cons.prems(2) by blast
  consider "s = [] \<or> s = ''.''" | "s = ''..''" | "is_name s"
    using here by (auto simp: is_name_def)
  then show ?case
  proof cases
    case 1
    then show ?thesis using Cons.IH [OF rest Cons.prems(2)] by auto
  next
    case 2
    show ?thesis
    proof (cases "ns = []")
      case True
      then have Yk: "Y = replicate k ''..''" using Y by simp
      then have cond: "\<not> (Y \<noteq> [] \<and> last Y \<noteq> ''..'')" by (cases k) auto
      have nf: "\<exists>k ns. Y @ [''..''] = replicate k ''..'' @ ns \<and> (\<forall>s\<in>set ns. is_name s)"
      proof (intro exI conjI)
        show "Y @ [''..''] = replicate (Suc k) ''..'' @ []"
          using Yk by (simp add: replicate_append_same)
        show "\<forall>s\<in>set []. is_name s" by simp
      qed
      have "normalizeString (normalizeString (s # ss) True Y) False C =
            normalizeString (normalizeString ss True (Y @ [''..''])) False C"
        using 2 cond by auto
      also have "\<dots> = normalizeString ss False (normalizeString (Y @ [''..'']) False C)"
        by (rule Cons.IH [OF rest nf])
      also have "\<dots> = normalizeString (s # ss) False (normalizeString Y False C)"
        using 2 by (simp add: normalizeString_append)
      finally show ?thesis .
    next
      case False
      then obtain ns' m where nsm: "ns = ns' @ [m]" by (metis rev_exhaust)
      then have m: "is_name m" and ns': "\<forall>s\<in>set ns'. is_name s" using ns by simp_all
      have Y': "Y = (replicate k ''..'' @ ns') @ [m]" using Y nsm by simp
      have cond: "Y \<noteq> [] \<and> last Y \<noteq> ''..''" using Y' m by (simp add: is_name_def)
      have bl: "butlast Y = replicate k ''..'' @ ns'" using Y' by (simp add: butlast_append)
      have nf: "\<exists>k ns. butlast Y = replicate k ''..'' @ ns \<and> (\<forall>s\<in>set ns. is_name s)"
        using bl ns' by blast
      have res: "normalizeString Y False C = normalizeString (butlast Y) False C @ [m]"
        using Y' bl normalizeString_snoc_name [OF m, of "replicate k ''..'' @ ns'" False C] by simp
      have "normalizeString (normalizeString (s # ss) True Y) False C =
            normalizeString (normalizeString ss True (butlast Y)) False C"
        using 2 cond by simp
      also have "\<dots> = normalizeString ss False (normalizeString (butlast Y) False C)"
        by (rule Cons.IH [OF rest nf])
      also have "\<dots> = normalizeString (s # ss) False (normalizeString Y False C)"
        using 2 m by (simp add: res is_name_def)
      finally show ?thesis .
    qed
  next
    case 3
    have nf: "\<exists>k ns. Y @ [s] = replicate k ''..'' @ ns \<and> (\<forall>s\<in>set ns. is_name s)"
    proof (intro exI conjI)
      show "Y @ [s] = replicate k ''..'' @ (ns @ [s])" using Y by simp
      show "\<forall>x\<in>set (ns @ [s]). is_name x" using ns 3 by simp
    qed
    have "normalizeString (normalizeString (s # ss) True Y) False C =
          normalizeString (normalizeString ss True (Y @ [s])) False C"
      using 3 by (simp add: is_name_def)
    also have "\<dots> = normalizeString ss False (normalizeString (Y @ [s]) False C)"
      by (rule Cons.IH [OF rest nf])
    also have "\<dots> = normalizeString (s # ss) False (normalizeString Y False C)"
      using 3 by (simp add: normalizeString_snoc_name is_name_def)
    finally show ?thesis .
  qed
qed

subsection \<open>\<^verbatim>\<open>path.resolve\<close> and \<^verbatim>\<open>path.join\<close>\<close>

lemma names_no_slash: "\<forall>s\<in>set segs. is_name s \<Longrightarrow> \<forall>s\<in>set segs. CHR ''/'' \<notin> set s"
  by (simp add: is_name_def)

lemma split_abs_path:
  assumes "\<forall>s\<in>set segs. is_name s"
  shows "split_on CHR ''/'' (abs_path segs) = [] # (if segs = [] then [''''] else segs)"
  using assms split_join [of segs] by (auto simp: abs_path_def is_name_def)

lemma path_segments_abs_path:
  assumes "\<forall>s\<in>set segs. is_name s"
  shows "path_segments (abs_path segs) = segs"
proof -
  have "filter (\<lambda>s. s \<noteq> []) segs = segs"
    using assms by (simp add: is_name_def filter_id_conv)
  then show ?thesis
    using split_abs_path [OF assms] by (simp add: path_segments_def)
qed

lemma isAbsolute_abs_path [simp]: "isAbsolute (abs_path segs)"
  by (simp add: isAbsolute_def abs_path_def)

lemma abs_path_not_Nil [simp]: "abs_path segs \<noteq> []"
  by (simp add: abs_path_def)

lemma resolve_fold_absolute:
  "isAbsolute acc \<Longrightarrow>
   isAbsolute (fold (\<lambda>p acc. if p = [] then acc
                              else if isAbsolute p then p @ ''/''
                              else acc @ p @ ''/'') args acc)"
proof (induction args arbitrary: acc)
  case Nil
  then show ?case by simp
next
  case (Cons a args)
  have "isAbsolute (if a = [] then acc else if isAbsolute a then a @ ''/'' else acc @ a @ ''/'')"
    using Cons.prems by (auto simp: isAbsolute_def)
  from Cons.IH [OF this] show ?case by simp
qed

lemma path_resolve_absolute:
  assumes "isAbsolute wd"
  shows "\<exists>segs. (\<forall>s\<in>set segs. is_name s) \<and> path_resolve wd args = abs_path segs"
proof -
  let ?step = "\<lambda>p acc. if p = [] then acc else if isAbsolute p then p @ ''/'' else acc @ p @ ''/''"
  let ?R = "fold ?step (wd # args) []"
  have "?R = fold ?step args (wd @ ''/'')"
    using assms by (simp add: isAbsolute_def)
  moreover have "isAbsolute (wd @ ''/'')" using assms by (simp add: isAbsolute_def)
  ultimately have abs: "isAbsolute ?R" using resolve_fold_absolute [of "wd @ ''/''" args] by simp
  let ?segs = "normalizeString (split_on CHR ''/'' ?R) False []"
  have "\<forall>s\<in>set ?segs. is_name s"
    by (rule normalizeString_absolute_names) (auto dest: split_on_free)
  moreover have "path_resolve wd args = abs_path ?segs"
    using abs unfolding path_resolve_def Let_def abs_path_def by simp
  ultimately show ?thesis by blast
qed

lemma path_resolve_one:
  assumes "isAbsolute wd"
  shows "path_resolve wd [p] =
    abs_path (if isAbsolute p then normalizeString (split_on CHR ''/'' p) False []
              else normalizeString (split_on CHR ''/'' p) False
                     (normalizeString (split_on CHR ''/'' wd) False []))"
proof -
  have wd: "wd \<noteq> []" "isAbsolute (wd @ ''/'')" using assms by (auto simp: isAbsolute_def)
  show ?thesis
  proof (cases "p = []")
    case True
    then show ?thesis
      using wd unfolding path_resolve_def Let_def abs_path_def
      by (simp add: split_snoc_slash normalizeString_append isAbsolute_def)
  next
    case False
    show ?thesis
    proof (cases "isAbsolute p")
      case True
      then have "isAbsolute (p @ ''/'')" by (simp add: isAbsolute_def)
      then show ?thesis
        using wd True False unfolding path_resolve_def Let_def abs_path_def
        by (simp add: split_snoc_slash normalizeString_append)
    next
      case np: False
      have abs: "isAbsolute (wd @ ''/'' @ p @ ''/'')" using assms by (auto simp: isAbsolute_def)
      have "split_on CHR ''/'' (wd @ ''/'' @ p @ ''/'') =
            split_on CHR ''/'' wd @ split_on CHR ''/'' p @ ['''']"
        using split_on_append [of "CHR ''/''" wd "p @ ''/''"] by (simp add: split_snoc_slash)
      then show ?thesis
        using wd np False abs unfolding path_resolve_def Let_def abs_path_def
        by (simp add: normalizeString_append)
    qed
  qed
qed

lemma path_join_child:
  assumes segs: "\<forall>s\<in>set segs. is_name s" and d: "is_name d"
  shows "path_join [abs_path segs, d] = abs_path (segs @ [d])"
proof -
  let ?p = "abs_path segs @ ''/'' @ d"
  have dn: "d \<noteq> []" and ds: "CHR ''/'' \<notin> set d" using d by (simp_all add: is_name_def)
  have joined: "join_with ''/'' (filter (\<lambda>a. a \<noteq> []) [abs_path segs, d]) = ?p"
    using dn by simp
  have "last d \<noteq> CHR ''/''" using dn ds by (metis last_in_set)
  then have last: "last ?p \<noteq> CHR ''/''" using dn by (simp add: last_append)
  have abs: "isAbsolute ?p" by (simp add: isAbsolute_def abs_path_def)
  have "split_on CHR ''/'' ?p = split_on CHR ''/'' (abs_path segs) @ split_on CHR ''/'' d"
    using split_on_append [of "CHR ''/''" "abs_path segs" d] by simp
  then have sp: "split_on CHR ''/'' ?p = ([] # (if segs = [] then [''''] else segs)) @ [d]"
    using split_abs_path [OF segs] ds by (simp add: split_on_no_sep)
  have all: "\<forall>s\<in>set (segs @ [d]). is_name s" using segs d by simp
  have "normalizeString (split_on CHR ''/'' ?p) False [] = segs @ [d]"
  proof (cases "segs = []")
    case True
    then show ?thesis using sp d normalizeString_names [of "[d]" False "[]"] by simp
  next
    case False
    then show ?thesis using sp normalizeString_names [OF all, of False "[]"] by simp
  qed
  then have "path_normalize ?p = abs_path (segs @ [d])"
    using last abs unfolding path_normalize_def Let_def abs_path_def by simp
  then show ?thesis
    unfolding path_join_def Let_def joined by simp
qed

lemma path_join_with_name:
  assumes n: "is_name n"
  shows "path_join [root, n] =
     (if isAbsolute root then ''/'' else []) @
       join_with ''/'' (normalizeString (split_on CHR ''/'' root) (\<not> isAbsolute root) [] @ [n])"
proof -
  have nn: "n \<noteq> []" and ns: "CHR ''/'' \<notin> set n" using n by (simp_all add: is_name_def)
  have "last n \<noteq> CHR ''/''" using nn ns by (metis last_in_set)
  show ?thesis
  proof (cases "root = []")
    case True
    have nrm: "normalizeString [n] True [] = [n]"
      using normalizeString_names [of "[n]" True "[]"] n by simp
    have "hd n \<noteq> CHR ''/''" using nn ns by (metis hd_in_set)
    then have rel: "\<not> isAbsolute n" by (simp add: isAbsolute_def)
    have "path_normalize n = n"
      unfolding path_normalize_def Let_def
      using nn rel \<open>last n \<noteq> CHR ''/''\<close> ns nrm by (simp add: split_on_no_sep)
    then show ?thesis
      using True nn unfolding path_join_def Let_def by (simp add: isAbsolute_def)
  next
    case False
    let ?p = "root @ ''/'' @ n"
    have joined: "join_with ''/'' (filter (\<lambda>a. a \<noteq> []) [root, n]) = ?p" using False nn by simp
    have abs: "isAbsolute ?p = isAbsolute root" using False by (simp add: isAbsolute_def)
    have last: "last ?p \<noteq> CHR ''/''" using \<open>last n \<noteq> CHR ''/''\<close> nn by (simp add: last_append)
    have "split_on CHR ''/'' ?p = split_on CHR ''/'' root @ [n]"
      using split_on_append [of "CHR ''/''" root n] ns by (simp add: split_on_no_sep)
    then have segs: "normalizeString (split_on CHR ''/'' ?p) (\<not> isAbsolute ?p) [] =
        normalizeString (split_on CHR ''/'' root) (\<not> isAbsolute root) [] @ [n]"
      using abs normalizeString_snoc_name [OF n] by simp
    have "path_normalize ?p = (if isAbsolute root then ''/'' else []) @
       join_with ''/'' (normalizeString (split_on CHR ''/'' root) (\<not> isAbsolute root) [] @ [n])"
      unfolding path_normalize_def Let_def segs using last abs by simp
    then show ?thesis unfolding path_join_def Let_def joined by simp
  qed
qed

lemma path_resolve_child:
  assumes wd: "isAbsolute wd" and n: "is_name n"
  shows "\<exists>segs. (\<forall>s\<in>set segs. is_name s) \<and> path_resolve wd [root] = abs_path segs \<and>
           path_resolve wd [path_join [root, n]] = abs_path (segs @ [n])"
proof -
  let ?C = "normalizeString (split_on CHR ''/'' wd) False []"
  have C: "\<forall>s\<in>set ?C. is_name s"
    by (rule normalizeString_absolute_names) (auto dest: split_on_free)
  have sf: "\<forall>s\<in>set (split_on CHR ''/'' root). CHR ''/'' \<notin> set s" by (auto dest: split_on_free)
  have ns: "CHR ''/'' \<notin> set n" using n by (simp add: is_name_def)
  show ?thesis
  proof (cases "isAbsolute root")
    case True
    let ?X = "normalizeString (split_on CHR ''/'' root) False []"
    have X: "\<forall>s\<in>set ?X. is_name s"
      by (rule normalizeString_absolute_names [OF sf]) simp
    have all: "\<forall>s\<in>set (?X @ [n]). is_name s" using X n by simp
    have j: "path_join [root, n] = abs_path (?X @ [n])"
      using path_join_with_name [OF n, of root] True by (simp add: abs_path_def)
    have "path_resolve wd [abs_path (?X @ [n])] = abs_path (?X @ [n])"
      using path_resolve_one [OF wd, of "abs_path (?X @ [n])"] split_abs_path [OF all]
        normalizeString_names [OF all, of False "[]"]
      by simp
    moreover have "path_resolve wd [root] = abs_path ?X"
      using path_resolve_one [OF wd, of root] True by simp
    ultimately show ?thesis using X j by auto
  next
    case False
    let ?X = "normalizeString (split_on CHR ''/'' root) True []"
    let ?S = "normalizeString (split_on CHR ''/'' root) False ?C"
    have S: "\<forall>s\<in>set ?S. is_name s"
      by (rule normalizeString_absolute_names [OF sf C])
    have Xs: "\<forall>s\<in>set (?X @ [n]). CHR ''/'' \<notin> set s"
      using normalizeString_no_slash [OF sf, of True] ns by simp
    have j: "path_join [root, n] = join_with ''/'' (?X @ [n])"
      using path_join_with_name [OF n, of root] False by simp
    have jn: "join_with ''/'' (?X @ [n]) \<noteq> []"
    proof
      assume "join_with ''/'' (?X @ [n]) = []"
      then have "split_on CHR ''/'' [] = ?X @ [n]" using split_join [OF _ Xs] by simp
      then show False using n by (cases ?X) (simp_all add: is_name_def)
    qed
    have rel: "\<not> isAbsolute (join_with ''/'' (?X @ [n]))"
    proof
      assume "isAbsolute (join_with ''/'' (?X @ [n]))"
      then obtain t where t: "join_with ''/'' (?X @ [n]) = CHR ''/'' # t"
        by (cases "join_with ''/'' (?X @ [n])") (auto simp: isAbsolute_def)
      have "split_on CHR ''/'' (join_with ''/'' (?X @ [n])) = ?X @ [n]"
        by (rule split_join [OF _ Xs]) simp
      then have "[] # split_on CHR ''/'' t = ?X @ [n]" using t by simp
      then have "hd (?X @ [n]) = []" by (metis list.sel(1))
      moreover have "\<forall>s\<in>set (?X @ [n]). s \<noteq> []"
      proof -
        have "\<forall>s\<in>set ?X. s \<noteq> []" by (rule normalizeString_nonempty)
        then show ?thesis using n by (simp add: is_name_def)
      qed
      ultimately show False using hd_in_set [of "?X @ [n]"] by auto
    qed
    have "split_on CHR ''/'' (join_with ''/'' (?X @ [n])) = ?X @ [n]"
      by (rule split_join [OF _ Xs]) simp
    then have "path_resolve wd [join_with ''/'' (?X @ [n])] =
        abs_path (normalizeString (?X @ [n]) False ?C)"
      using path_resolve_one [OF wd, of "join_with ''/'' (?X @ [n])"] rel by simp
    also have "normalizeString (?X @ [n]) False ?C = normalizeString ?X False ?C @ [n]"
      by (rule normalizeString_snoc_name [OF n])
    also have "normalizeString ?X False ?C = ?S"
      using normalizeString_twice [OF sf, of "[]" ?C] by simp
    finally have "path_resolve wd [path_join [root, n]] = abs_path (?S @ [n])" using j by simp
    moreover have "path_resolve wd [root] = abs_path ?S"
      using path_resolve_one [OF wd, of root] False by simp
    ultimately show ?thesis using S by auto
  qed
qed

lemma path_resolve_src:
  assumes wd: "isAbsolute wd" and n: "is_name n"
  shows "path_resolve wd [wd, ''src/'' @ n] =
         abs_path (path_segments (path_resolve wd []) @ [''src'', n])"
proof -
  let ?C = "normalizeString (split_on CHR ''/'' wd) False []"
  have C: "\<forall>s\<in>set ?C. is_name s"
    by (rule normalizeString_absolute_names) (auto dest: split_on_free)
  have ns: "CHR ''/'' \<notin> set n" using n by (simp add: is_name_def)
  have wdn: "wd \<noteq> []" and a1: "isAbsolute (wd @ ''/'')" and a2: "isAbsolute (wd @ ''/src/'' @ n @ ''/'')"
    using wd by (auto simp: isAbsolute_def)
  have "path_resolve wd [] = abs_path ?C"
    using wdn a1 wd unfolding path_resolve_def Let_def abs_path_def
    by (simp add: split_snoc_slash normalizeString_append)
  then have base: "path_segments (path_resolve wd []) = ?C"
    using path_segments_abs_path [OF C] by simp
  have "split_on CHR ''/'' (''src/'' @ n @ ''/'') = [''src'', n, []]"
    using split_on_append [of "CHR ''/''" "''src''" "n @ ''/''"] split_snoc_slash [of n] ns
    by (simp add: split_on_no_sep)
  then have "split_on CHR ''/'' (wd @ ''/src/'' @ n @ ''/'') =
        split_on CHR ''/'' wd @ [''src'', n, []]"
    using split_on_append [of "CHR ''/''" wd "''src/'' @ n @ ''/''"] by simp
  then have N: "normalizeString (split_on CHR ''/'' (wd @ ''/src/'' @ n @ ''/'')) False [] =
        ?C @ [''src'', n]"
    using n by (simp add: normalizeString_append is_name_def)
  have R: "fold (\<lambda>p acc. if p = [] then acc
                                else if isAbsolute p then p @ ''/''
                                else acc @ p @ ''/'') [wd, wd, ''src/'' @ n] [] =
        wd @ ''/src/'' @ n @ ''/''"
    using wd by (simp add: isAbsolute_def)
  have "path_resolve wd [wd, ''src/'' @ n] = abs_path (?C @ [''src'', n])"
    unfolding path_resolve_def Let_def R abs_path_def using a2 N by simp
  then show ?thesis using base by simp
qed

subsection \<open>Following a path on the disk\<close>

lemma lookup_append:
  "lookup r (p @ q) = (case lookup r p of None \<Rightarrow> None | Some n \<Rightarrow> lookup n q)"
  by (induction r p rule: lookup.induct) (auto split: option.splits)

lemma lookup_snoc_Some:
  "lookup r (cs @ [s]) = Some ch \<Longrightarrow> \<exists>es. lookup r cs = Some (Dir es) \<and> map_of es s = Some ch"
proof -
  assume a: "lookup r (cs @ [s]) = Some ch"
  then obtain n where n: "lookup r cs = Some n" and l: "lookup n [s] = Some ch"
    by (auto simp: lookup_append split: option.splits)
  then show ?thesis by (cases n) (auto split: option.splits)
qed

lemma lookup_snoc:
  "lookup r (cs @ [s]) = (case lookup r cs of Some (Dir es) \<Rightarrow> map_of es s | _ \<Rightarrow> None)"
  by (auto simp: lookup_append split: option.splits node.splits)

lemma canonical_errors: "canonical r cs ss = Inl e \<Longrightarrow> e = ENOENT \<or> e = ENOTDIR"
  by (induction r cs ss rule: canonical.induct)
     (auto split: option.splits node.splits if_splits)

lemma realpath_errors: "realpath ps p = Inl e \<Longrightarrow> e = ENOENT \<or> e = ENOTDIR"
  by (auto simp: realpath_def dest: canonical_errors split: if_splits)

lemma canonical_names_found:
  "\<forall>s\<in>set ss. is_name s \<Longrightarrow> lookup r (cs @ ss) \<noteq> None \<Longrightarrow> canonical r cs ss = Inr (cs @ ss)"
proof (induction ss arbitrary: cs)
  case Nil
  then show ?case by simp
next
  case (Cons s ss)
  have nm: "is_name s" and rest: "\<forall>s\<in>set ss. is_name s" using Cons.prems(1) by simp_all
  have l: "lookup r ((cs @ [s]) @ ss) \<noteq> None" using Cons.prems(2) by simp
  have "lookup r ((cs @ [s]) @ ss) =
      (case lookup r (cs @ [s]) of None \<Rightarrow> None | Some n \<Rightarrow> lookup n ss)"
    by (rule lookup_append)
  with l obtain ch where "lookup r (cs @ [s]) = Some ch"
    by (cases "lookup r (cs @ [s])") auto
  then obtain es where es: "lookup r cs = Some (Dir es)" "map_of es s = Some ch"
    using lookup_snoc_Some by blast
  have "canonical r cs (s # ss) = canonical r (cs @ [s]) ss"
    using es nm by (simp add: is_name_def)
  then show ?case using Cons.IH [OF rest l] by simp
qed

lemma canonical_names_missing:
  "\<forall>s\<in>set ss. is_name s \<Longrightarrow> lookup r (cs @ ss) = None \<Longrightarrow> lookup r cs \<noteq> None \<Longrightarrow>
   \<exists>e. canonical r cs ss = Inl e"
proof (induction ss arbitrary: cs)
  case Nil
  then show ?case by simp
next
  case (Cons s ss)
  have nm: "is_name s" and rest: "\<forall>s\<in>set ss. is_name s" using Cons.prems(1) by simp_all
  obtain n where n: "lookup r cs = Some n" using Cons.prems(3) by auto
  show ?case
  proof (cases n)
    case (File c)
    then show ?thesis using n by simp
  next
    case Dangling
    then show ?thesis using n by simp
  next
    case (Dir es)
    show ?thesis
    proof (cases "map_of es s")
      case None
      then show ?thesis using n Dir nm by (simp add: is_name_def)
    next
      case (Some ch)
      have here: "lookup r (cs @ [s]) \<noteq> None" using n Dir Some by (simp add: lookup_append)
      have "lookup r ((cs @ [s]) @ ss) = None" using Cons.prems(2) by simp
      from Cons.IH [OF rest this here] show ?thesis
        using n Dir Some nm by (simp add: is_name_def)
    qed
  qed
qed

lemma canonical_names_ENOENT:
  "\<forall>s\<in>set ss. is_name s \<Longrightarrow> lookup r cs \<noteq> None \<Longrightarrow> lookup r (cs @ ss) = None \<Longrightarrow>
   \<forall>p c. prefix p (cs @ ss) \<longrightarrow> lookup r p \<noteq> Some (File c) \<Longrightarrow>
   canonical r cs ss = Inl ENOENT"
proof (induction ss arbitrary: cs)
  case Nil
  then show ?case by simp
next
  case (Cons s ss)
  have nm: "is_name s" and rest: "\<forall>s\<in>set ss. is_name s" using Cons.prems(1) by simp_all
  obtain n where n: "lookup r cs = Some n" using Cons.prems(2) by auto
  have nofile: "\<And>c. n \<noteq> File c" using Cons.prems(4) n by (metis prefixI)
  show ?case
  proof (cases n)
    case (File c)
    then show ?thesis using nofile by simp
  next
    case Dangling
    then show ?thesis using n by simp
  next
    case (Dir es)
    show ?thesis
    proof (cases "map_of es s")
      case None
      then show ?thesis using n Dir nm by (simp add: is_name_def)
    next
      case (Some ch)
      have here: "lookup r (cs @ [s]) \<noteq> None" using n Dir Some by (simp add: lookup_append)
      have miss: "lookup r ((cs @ [s]) @ ss) = None" using Cons.prems(3) by simp
      have nf: "\<forall>p c. prefix p ((cs @ [s]) @ ss) \<longrightarrow> lookup r p \<noteq> Some (File c)"
        using Cons.prems(4) by simp
      from Cons.IH [OF rest here miss nf] show ?thesis
        using n Dir Some nm by (simp add: is_name_def)
    qed
  qed
qed

lemma realpath_found:
  assumes "\<forall>s\<in>set segs. is_name s" and "segs \<noteq> []" and "lookup (disk ps) segs \<noteq> None"
  shows "realpath ps (abs_path segs) = Inr segs"
proof -
  obtain s rest where sr: "segs = s # rest" using assms(2) by (cases segs) auto
  then obtain es where root: "disk ps = Dir es" using assms(3) by (cases "disk ps") auto
  have "canonical (disk ps) [] segs = Inr segs"
    using canonical_names_found [OF assms(1), of "disk ps" "[]"] assms(3) by simp
  then show ?thesis
    using split_abs_path [OF assms(1)] assms(2) root by (simp add: realpath_def)
qed

lemma realpath_root:
  assumes "disk ps = Dir es"
  shows "realpath ps (abs_path []) = Inr []"
  using assms by (simp add: realpath_def abs_path_def isAbsolute_def)

lemma realpath_missing:
  assumes "\<forall>s\<in>set segs. is_name s" and "lookup (disk ps) segs = None"
  shows "\<exists>e. realpath ps (abs_path segs) = Inl e"
proof -
  have ne: "segs \<noteq> []" using assms(2) by auto
  show ?thesis
  proof (cases "disk ps")
    case (File c)
    then show ?thesis using split_abs_path [OF assms(1)] ne by (simp add: realpath_def)
  next
    case Dangling
    then show ?thesis using split_abs_path [OF assms(1)] ne by (simp add: realpath_def)
  next
    case (Dir es)
    have "\<exists>e. canonical (disk ps) [] segs = Inl e"
      using canonical_names_missing [OF assms(1), of "disk ps" "[]"] assms(2) by simp
    then show ?thesis using split_abs_path [OF assms(1)] ne Dir by (simp add: realpath_def)
  qed
qed

lemma realpath_ENOENT:
  assumes "\<forall>s\<in>set segs. is_name s" and "lookup (disk ps) segs = None"
    and "\<forall>p c. prefix p segs \<longrightarrow> lookup (disk ps) p \<noteq> Some (File c)"
  shows "realpath ps (abs_path segs) = Inl ENOENT"
proof -
  have ne: "segs \<noteq> []" using assms(2) by auto
  have nofile: "\<And>c. disk ps \<noteq> File c" using assms(3) by (metis Nil_prefix lookup.simps(1))
  show ?thesis
  proof (cases "disk ps")
    case (File c)
    then show ?thesis using nofile by simp
  next
    case Dangling
    then show ?thesis using split_abs_path [OF assms(1)] ne by (simp add: realpath_def)
  next
    case (Dir es)
    have "canonical (disk ps) [] segs = Inl ENOENT"
      using canonical_names_ENOENT [OF assms(1), of "disk ps" "[]"] assms(2,3) by simp
    then show ?thesis using split_abs_path [OF assms(1)] ne Dir by (simp add: realpath_def)
  qed
qed

text \<open>What exists at a place: something other than a dangling link.\<close>

lemma existsSync_abs_path:
  assumes "\<forall>s\<in>set segs. is_name s" and "segs \<noteq> []"
  shows "existsSync ps (abs_path segs) \<longleftrightarrow>
         lookup (disk ps) segs \<noteq> None \<and> lookup (disk ps) segs \<noteq> Some Dangling"
proof (cases "lookup (disk ps) segs")
  case None
  then show ?thesis using realpath_missing [OF assms(1) None] by (auto simp: existsSync_def)
next
  case (Some n)
  then show ?thesis
    using realpath_found [OF assms, of ps] by (cases n) (simp_all add: existsSync_def)
qed

subsection \<open>Removing directory entries\<close>

lemma map_entry_absent: "map_of es s = None \<Longrightarrow> AList.map_entry s f es = es"
  by (induction es) (auto split: if_splits)

lemma map_entry_same:
  "map_of es s = Some ch \<Longrightarrow> f ch = ch \<Longrightarrow> AList.map_entry s f es = es"
  by (induction es) (auto split: if_splits)

lemma map_entry_first:
  "map_of es s = Some ch \<Longrightarrow> f ch = g ch \<Longrightarrow> AList.map_entry s f es = AList.map_entry s g es"
  by (induction es) (auto split: if_splits)

lemma delete_absent: "map_of es d = None \<Longrightarrow> AList.delete d es = es"
  by (induction es) (auto split: if_splits)

lemma remove_modify:
  "lookup r (p @ [d]) \<noteq> Some Dangling \<Longrightarrow> remove r (p @ [d]) = modify_at (without d) r p"
proof (induction "without d" r p rule: modify_at.induct)
  case (1 n)
  then show ?case by (cases n) (auto split: option.splits)
next
  case (2 c s p)
  then show ?case by simp
next
  case (3 s p)
  then show ?case by simp
next
  case (4 es s p)
  show ?case
  proof (cases "map_of es s")
    case None
    then show ?thesis by (simp add: map_entry_absent)
  next
    case (Some ch)
    then have "lookup ch (p @ [d]) \<noteq> Some Dangling" using 4(2) by simp
    then have "remove ch (p @ [d]) = modify_at (without d) ch p" by (rule 4(1))
    then show ?thesis
      using map_entry_first [OF Some, of "\<lambda>ch. remove ch (p @ [d])" "\<lambda>ch. modify_at (without d) ch p"]
      by simp
  qed
qed

lemma modify_without_absent:
  "lookup r (p @ [d]) = None \<or> lookup r (p @ [d]) = Some Dangling \<Longrightarrow>
   modify_at (without d) r p = r"
proof (induction "without d" r p rule: modify_at.induct)
  case (1 n)
  then show ?case by (cases n) (auto simp: delete_absent split: option.splits)
next
  case (2 c s p)
  then show ?case by simp
next
  case (3 s p)
  then show ?case by simp
next
  case (4 es s p)
  show ?case
  proof (cases "map_of es s")
    case None
    then show ?thesis by (simp add: map_entry_absent)
  next
    case (Some ch)
    then have "lookup ch (p @ [d]) = None \<or> lookup ch (p @ [d]) = Some Dangling"
      using 4(2) by simp
    then have "modify_at (without d) ch p = ch" by (rule 4(1))
    then show ?thesis using Some by (simp add: map_entry_same)
  qed
qed

lemma map_entry_twice:
  "AList.map_entry s f (AList.map_entry s g es) = AList.map_entry s (\<lambda>x. f (g x)) es"
  by (induction es) auto

lemma modify_at_twice:
  "modify_at f (modify_at g r p) p = modify_at (\<lambda>n. f (g n)) r p"
proof (induction g r p rule: modify_at.induct)
  case (1 g n)
  then show ?case by simp
next
  case (2 g c s p)
  then show ?case by simp
next
  case (3 g s p)
  then show ?case by simp
next
  case (4 g es s p)
  then show ?case by (simp add: map_entry_twice)
qed

lemma modify_at_id: "modify_at (\<lambda>n. n) r p = r"
proof (induction "\<lambda>n::node. n" r p rule: modify_at.induct)
  case (1 n)
  then show ?case by simp
next
  case (2 c s p)
  then show ?case by simp
next
  case (3 s p)
  then show ?case by simp
next
  case (4 es s p)
  show ?case
  proof (cases "map_of es s")
    case None
    then show ?thesis by (simp add: map_entry_absent)
  next
    case (Some ch)
    then show ?thesis using 4 [of ch] by (simp add: map_entry_same)
  qed
qed

lemma lookup_modify_at: "lookup (modify_at f r p) p = map_option f (lookup r p)"
proof (induction f r p rule: modify_at.induct)
  case (1 f n)
  then show ?case by simp
next
  case (2 f c s p)
  then show ?case by simp
next
  case (3 f s p)
  then show ?case by simp
next
  case (4 f es s p)
  then show ?case by (simp add: map_of_map_entry split: option.splits)
qed

lemma lookup_modify_at_other:
  "\<not> prefix p q \<Longrightarrow> \<not> prefix q p \<Longrightarrow> lookup (modify_at f r p) q = lookup r q"
proof (induction f r p arbitrary: q rule: modify_at.induct)
  case (1 f n)
  then show ?case by simp
next
  case (2 f c s p)
  then show ?case by simp
next
  case (3 f s p)
  then show ?case by simp
next
  case (4 f es s p)
  then obtain t q' where q: "q = t # q'" by (cases q) auto
  show ?case
  proof (cases "t = s")
    case True
    then have "\<not> prefix p q'" "\<not> prefix q' p" using 4(2,3) q by simp_all
    then have "\<And>ch. lookup (modify_at f ch p) q' = lookup ch q'" using 4(1) by blast
    then show ?thesis using q True by (simp add: map_of_map_entry split: option.splits)
  next
    case False
    then show ?thesis using q by (simp add: map_of_map_entry)
  qed
qed

lemma fold_modify_at:
  "fold (\<lambda>d r. modify_at (without d) r p) dirs r = modify_at (\<lambda>n. fold without dirs n) r p"
proof (induction dirs arbitrary: r)
  case Nil
  then show ?case by (simp add: modify_at_id)
next
  case (Cons d dirs)
  then show ?case by (simp add: modify_at_twice)
qed

lemma fold_without_File: "fold without dirs (File c) = File c"
  by (induction dirs) simp_all

lemma fold_without_Dangling: "fold without dirs Dangling = Dangling"
  by (induction dirs) simp_all

text \<open>
  After the names \<open>dirs\<close> have been taken out of a directory, an entry of such a name is
  left only where the directory has a dangling link under that name.
\<close>

lemma fold_without_Dir:
  "fold without dirs (Dir es) =
     Dir (filter (\<lambda>e. fst e \<notin> set dirs \<or> map_of es (fst e) = Some Dangling) es)"
proof (induction dirs arbitrary: es)
  case Nil
  then show ?case by simp
next
  case (Cons d dirs)
  show ?case
  proof (cases "map_of es d = Some Dangling")
    case True
    have "filter (\<lambda>e. fst e \<notin> set dirs \<or> map_of es (fst e) = Some Dangling) es =
          filter (\<lambda>e. fst e \<notin> set (d # dirs) \<or> map_of es (fst e) = Some Dangling) es"
      using True by (intro filter_cong) auto
    then show ?thesis using True Cons.IH [of es] by simp
  next
    case False
    let ?es = "AList.delete d es"
    have del: "?es = filter (\<lambda>e. fst e \<noteq> d) es"
      by (induction es) auto
    have "filter (\<lambda>e. fst e \<notin> set dirs \<or> map_of ?es (fst e) = Some Dangling)
            (filter (\<lambda>e. fst e \<noteq> d) es) =
          filter (\<lambda>e. fst e \<noteq> d \<and>
                      (fst e \<notin> set dirs \<or> map_of ?es (fst e) = Some Dangling)) es"
      by (simp add: conj_commute)
    also have "\<dots> =
          filter (\<lambda>e. fst e \<notin> set (d # dirs) \<or> map_of es (fst e) = Some Dangling) es"
      using False by (intro filter_cong) (auto simp: delete_conv')
    finally have "filter (\<lambda>e. fst e \<notin> set dirs \<or> map_of ?es (fst e) = Some Dangling) ?es =
          filter (\<lambda>e. fst e \<notin> set (d # dirs) \<or> map_of es (fst e) = Some Dangling) es"
      using del by simp
    then show ?thesis using False Cons.IH [of ?es] by simp
  qed
qed

lemma map_of_filter_key:
  "map_of (filter (\<lambda>e. K (fst e)) es) k = (if K k then map_of es k else None)"
  by (induction es) auto

lemma lookup_cleaned_child:
  assumes "d \<in> set dirs"
  shows "lookup (modify_at (\<lambda>n. fold without dirs n) r p) (p @ [d]) = None \<or>
         lookup (modify_at (\<lambda>n. fold without dirs n) r p) (p @ [d]) = Some Dangling"
proof -
  have "lookup (fold without dirs n) [d] = None \<or> lookup (fold without dirs n) [d] = Some Dangling"
    for n
  proof (cases n)
    case (File c)
    then show ?thesis by (simp add: fold_without_File)
  next
    case Dangling
    then show ?thesis by (simp add: fold_without_Dangling)
  next
    case (Dir es)
    let ?K = "\<lambda>k. k \<notin> set dirs \<or> map_of es k = Some Dangling"
    have "map_of (filter (\<lambda>e. ?K (fst e)) es) d = (if ?K d then map_of es d else None)"
      by (rule map_of_filter_key)
    then have "map_of (filter (\<lambda>e. ?K (fst e)) es) d = None \<or>
               map_of (filter (\<lambda>e. ?K (fst e)) es) d = Some Dangling"
      using assms by (simp split: if_splits)
    then show ?thesis using Dir by (auto simp: fold_without_Dir split: option.splits)
  qed
  then show ?thesis
    by (cases "lookup r p") (simp_all add: lookup_append lookup_modify_at)
qed

subsection \<open>The loop of \<^verbatim>\<open>buildStart\<close>\<close>

lemma dirsToClean_names: "\<forall>d\<in>set dirsToClean. is_name d"
  by (simp add: dirsToClean_def is_name_def)

lemma rmSync_existing:
  assumes segs: "\<forall>s\<in>set segs. is_name s" and d: "is_name d"
    and ex: "existsSync ps (path_join [abs_path segs, d])"
  shows "rmSync ps (path_join [abs_path segs, d]) True True = unlink ps (segs @ [d])"
    and "remove (disk ps) (segs @ [d]) = modify_at (without d) (disk ps) segs"
proof -
  have all: "\<forall>s\<in>set (segs @ [d]). is_name s" using segs d by simp
  have j: "path_join [abs_path segs, d] = abs_path (segs @ [d])"
    by (rule path_join_child [OF segs d])
  have found: "lookup (disk ps) (segs @ [d]) \<noteq> None"
    and live: "lookup (disk ps) (segs @ [d]) \<noteq> Some Dangling"
    using ex existsSync_abs_path [OF all, of ps] j by simp_all
  have rp: "realpath ps (abs_path (segs @ [d])) = Inr (segs @ [d])"
    by (rule realpath_found [OF all _ found]) simp
  obtain n where n: "lookup (disk ps) (segs @ [d]) = Some n" using found by auto
  have "rmSync ps (abs_path (segs @ [d])) True True = unlink ps (segs @ [d])"
    using rp n by (cases n) (simp_all add: rmSync_def)
  then show "rmSync ps (path_join [abs_path segs, d]) True True = unlink ps (segs @ [d])"
    using j by simp
  show "remove (disk ps) (segs @ [d]) = modify_at (without d) (disk ps) segs"
    by (rule remove_modify [OF live])
qed

lemma not_existing_unchanged:
  assumes segs: "\<forall>s\<in>set segs. is_name s" and d: "is_name d"
    and ex: "\<not> existsSync ps (path_join [abs_path segs, d])"
  shows "modify_at (without d) (disk ps) segs = disk ps"
proof -
  have all: "\<forall>s\<in>set (segs @ [d]). is_name s" using segs d by simp
  have j: "path_join [abs_path segs, d] = abs_path (segs @ [d])"
    by (rule path_join_child [OF segs d])
  have "lookup (disk ps) (segs @ [d]) = None \<or> lookup (disk ps) (segs @ [d]) = Some Dangling"
    using ex existsSync_abs_path [OF all, of ps] j by auto
  then show ?thesis by (rule modify_without_absent)
qed

lemma buildStart_loop_step:
  assumes segs: "\<forall>s\<in>set segs. is_name s" and d: "is_name d"
  shows "buildStart_loop ps (abs_path segs) (d # dirs) =
     (if existsSync ps (path_join [abs_path segs, d]) then
        (case rm_refused ps (segs @ [d]) of
           Some e \<Rightarrow> Inl e
         | None \<Rightarrow>
             buildStart_loop (ps\<lparr>disk := modify_at (without d) (disk ps) segs\<rparr>) (abs_path segs) dirs)
      else buildStart_loop (ps\<lparr>disk := modify_at (without d) (disk ps) segs\<rparr>) (abs_path segs) dirs)"
proof (cases "existsSync ps (path_join [abs_path segs, d])")
  case True
  then show ?thesis
    using rmSync_existing [OF segs d True]
    by (simp add: unlink_def split: option.splits)
next
  case False
  then show ?thesis using not_existing_unchanged [OF segs d False] by simp
qed

lemma buildStart_loop_Inr:
  assumes segs: "\<forall>s\<in>set segs. is_name s"
  shows "\<forall>d\<in>set dirs. is_name d \<Longrightarrow> buildStart_loop ps (abs_path segs) dirs = Inr after \<Longrightarrow>
    after = modify_at (\<lambda>n. fold without dirs n) (disk ps) segs"
proof (induction dirs arbitrary: ps)
  case Nil
  then show ?case by (simp add: modify_at_id)
next
  case (Cons d dirs)
  have d: "is_name d" and rest: "\<forall>d\<in>set dirs. is_name d" using Cons.prems(1) by simp_all
  let ?ps = "ps\<lparr>disk := modify_at (without d) (disk ps) segs\<rparr>"
  have "buildStart_loop ?ps (abs_path segs) dirs = Inr after"
    using Cons.prems(2) unfolding buildStart_loop_step [OF segs d]
    by (simp split: if_splits option.splits)
  from Cons.IH [OF rest this] show ?case by (simp add: modify_at_twice)
qed

lemma lookup_without_other:
  "d' \<noteq> d \<Longrightarrow> lookup (without d n) [d'] = lookup n [d']"
  by (cases n) simp_all

lemma existsSync_sibling:
  assumes segs: "\<forall>s\<in>set segs. is_name s" and d': "is_name d'" and ne: "d' \<noteq> d"
  shows "existsSync (ps\<lparr>disk := modify_at (without d) (disk ps) segs\<rparr>)
           (path_join [abs_path segs, d']) =
         existsSync ps (path_join [abs_path segs, d'])"
proof -
  have all: "\<forall>s\<in>set (segs @ [d']). is_name s" using segs d' by simp
  have j: "path_join [abs_path segs, d'] = abs_path (segs @ [d'])"
    by (rule path_join_child [OF segs d'])
  have "lookup (modify_at (without d) (disk ps) segs) (segs @ [d']) =
        lookup (disk ps) (segs @ [d'])"
    using ne by (cases "lookup (disk ps) segs")
      (simp_all add: lookup_append lookup_modify_at lookup_without_other del: lookup.simps)
  then show ?thesis
    using existsSync_abs_path [OF all, of ps]
      existsSync_abs_path [OF all, of "ps\<lparr>disk := modify_at (without d) (disk ps) segs\<rparr>"] j
    by simp
qed

lemma buildStart_loop_Inl:
  assumes segs: "\<forall>s\<in>set segs. is_name s"
  shows "\<forall>d\<in>set dirs. is_name d \<Longrightarrow> distinct dirs \<Longrightarrow>
    buildStart_loop ps (abs_path segs) dirs = Inl e \<Longrightarrow>
    \<exists>d\<in>set dirs. existsSync ps (path_join [abs_path segs, d]) \<and>
                  rm_refused ps (segs @ [d]) = Some e"
proof (induction dirs arbitrary: ps)
  case Nil
  then show ?case by simp
next
  case (Cons d dirs)
  have d: "is_name d" and rest: "\<forall>d\<in>set dirs. is_name d" using Cons.prems(1) by simp_all
  have dist: "distinct dirs" and fresh: "d \<notin> set dirs" using Cons.prems(2) by simp_all
  let ?ps = "ps\<lparr>disk := modify_at (without d) (disk ps) segs\<rparr>"
  show ?case
  proof (cases "existsSync ps (path_join [abs_path segs, d]) \<and>
                rm_refused ps (segs @ [d]) = Some e")
    case True
    then show ?thesis by simp
  next
    case False
    then have "buildStart_loop ?ps (abs_path segs) dirs = Inl e"
      using Cons.prems(3) unfolding buildStart_loop_step [OF segs d]
      by (auto split: if_splits option.splits)
    from Cons.IH [OF rest dist this] obtain d' where d': "d' \<in> set dirs"
      and ex: "existsSync ?ps (path_join [abs_path segs, d'])"
      and rf: "rm_refused ps (segs @ [d']) = Some e"
      by auto
    have "d' \<noteq> d" using d' fresh by auto
    then have "existsSync ps (path_join [abs_path segs, d'])"
      using ex existsSync_sibling [OF segs, of d' d ps] rest d' by simp
    then show ?thesis using d' rf by auto
  qed
qed

lemma buildStart_loop_refused:
  assumes segs: "\<forall>s\<in>set segs. is_name s"
  shows "\<forall>d\<in>set dirs. is_name d \<Longrightarrow> distinct dirs \<Longrightarrow>
    \<exists>d\<in>set dirs. existsSync ps (path_join [abs_path segs, d]) \<and>
                  rm_refused ps (segs @ [d]) \<noteq> None \<Longrightarrow>
    \<exists>e. buildStart_loop ps (abs_path segs) dirs = Inl e"
proof (induction dirs arbitrary: ps)
  case Nil
  then show ?case by simp
next
  case (Cons d dirs)
  have d: "is_name d" and rest: "\<forall>d\<in>set dirs. is_name d" using Cons.prems(1) by simp_all
  have dist: "distinct dirs" and fresh: "d \<notin> set dirs" using Cons.prems(2) by simp_all
  let ?ps = "ps\<lparr>disk := modify_at (without d) (disk ps) segs\<rparr>"
  show ?case
  proof (cases "existsSync ps (path_join [abs_path segs, d]) \<and>
                rm_refused ps (segs @ [d]) \<noteq> None")
    case True
    then show ?thesis unfolding buildStart_loop_step [OF segs d] by auto
  next
    case False
    then obtain d' where d': "d' \<in> set dirs"
      and ex: "existsSync ps (path_join [abs_path segs, d'])"
      and rf: "rm_refused ps (segs @ [d']) \<noteq> None"
      using Cons.prems(3) by auto
    have "d' \<noteq> d" using d' fresh by auto
    then have "existsSync ?ps (path_join [abs_path segs, d'])"
      using ex existsSync_sibling [OF segs, of d' d ps] rest d' by simp
    then have "\<exists>d\<in>set dirs. existsSync ?ps (path_join [abs_path segs, d]) \<and>
                  rm_refused ?ps (segs @ [d]) \<noteq> None"
      using d' rf by auto
    from Cons.IH [OF rest dist this] obtain e where
      e: "buildStart_loop ?ps (abs_path segs) dirs = Inl e" by blast
    show ?thesis
      unfolding buildStart_loop_step [OF segs d] using e
      by (auto split: option.splits)
  qed
qed

lemma buildStart_loop_nothing:
  assumes segs: "\<forall>s\<in>set segs. is_name s"
  shows "\<forall>d\<in>set dirs. is_name d \<Longrightarrow>
    \<forall>d\<in>set dirs. \<not> existsSync ps (path_join [abs_path segs, d]) \<Longrightarrow>
    buildStart_loop ps (abs_path segs) dirs = Inr (disk ps)"
  by (induction dirs) simp_all

subsection \<open>The regular expressions, the hooks and the server settings\<close>

lemma image_regex_test:
  "regex_test_end image_regex s \<longleftrightarrow>
     suffix ''.gif'' s \<or> suffix ''.jpg'' s \<or> suffix ''.jpeg'' s \<or> suffix ''.png'' s \<or>
     suffix ''.webp'' s \<or> suffix ''.avif'' s \<or> suffix ''.svg'' s"
  by (auto simp: regex_test_end_def image_regex_def)

lemma css_regex_test: "regex_test_end css_regex s \<longleftrightarrow> suffix ''.css'' s"
  by (simp add: regex_test_end_def css_regex_def)

lemma font_regex_test:
  "regex_test_end font_regex s \<longleftrightarrow> suffix ''.woff'' s \<or> suffix ''.woff2'' s"
  by (auto simp: regex_test_end_def font_regex_def)

lemma env_regex_test:
  "regex_test env_regex s \<longleftrightarrow> sublist ''test'' s \<or> sublist ''development'' s"
  by (simp add: regex_test_def env_regex_def)

lemma config_hook_fields:
  assumes "config_hook ps pl = Inr c"
  shows "entryFileNames c = formatAssetFilePath (Some ''js'') (Some ''.js'')"
    and "chunkFileNames c = formatAssetFilePath (Some ''js'') (Some ''.js'')"
    and "assetFileNames c = determineAssetFilePath"
    and "build_sourcemap c = (\<not> regex_test env_regex (LUCKY_ENV ps))"
  using assms by (auto simp: config_hook_def split: sum.splits)

lemma resolveAliases_map_strings:
  "resolveAliases_map ps (map JStr names) =
     Inr (map (\<lambda>n. \<lparr>alias_find = ''@'' @ n,
                     alias_replacement = path_resolve (cwd ps) [LUCKY_ROOT ps, ''src/'' @ n]\<rparr>) names)"
  by (induction names) simp_all

lemma configureServer_synthesized:
  assumes "template_string (case get c ''host'' of Some (JBool b) \<Rightarrow> Some (JStr ''0.0.0.0'') | v \<Rightarrow> v) = Inr h"
    and "template_string (get c ''port'') = Inr p"
    and "\<not> truthy (get c ''origin'')"
    and "href = (if truthy (get c ''https'') then ''https'' else ''http'') @ ''://'' @ h @ '':'' @ p"
  shows "configureServer ps c =
     (case new_URL ps href of
        None \<Rightarrow> Inl InvalidURL
      | Some uri \<Rightarrow>
          Inr \<lparr>server_origin = JStr href,
               server_host = url_hostname uri,
               server_port = url_port uri,
               server_https = (url_protocol uri = ''https:'')\<rparr>)"
proof -
  let ?https = "case get c ''https'' of None \<Rightarrow> Some (JBool False) | Some v \<Rightarrow> Some v"
  let ?host = "case get c ''host'' of Some (JBool b) \<Rightarrow> Some (JStr ''0.0.0.0'') | v \<Rightarrow> v"
  have t: "truthy ?https = truthy (get c ''https'')"
    by (cases "get c ''https''") simp_all
  have "origin_template ?https ?host (get c ''port'') = Inr href"
    using assms(1,2,4) t by (simp add: origin_template_def)
  then show ?thesis
    using assms(3) unfolding configureServer_def Let_def
    by (cases "get c ''origin''") (simp_all split: option.splits)
qed

lemma configureServer_supplied:
  assumes "get c ''origin'' = Some (JStr href)" and "href \<noteq> []"
  shows "configureServer ps c =
     (case new_URL ps href of
        None \<Rightarrow> Inl InvalidURL
      | Some uri \<Rightarrow>
          Inr \<lparr>server_origin = JStr href,
               server_host = url_hostname uri,
               server_port = url_port uri,
               server_https = (url_protocol uri = ''https:'')\<rparr>)"
  using assms unfolding configureServer_def Let_def by (simp split: option.splits)

subsection \<open>The sample project\<close>

lemma sample_plugin_loaded: "LuckyPlugin sample_process None = Inr sample_plugin"
  by code_simp

lemma sample_config_hook: "\<exists>c. config_hook sample_process sample_plugin = Inr c"
proof -
  have "case config_hook sample_process sample_plugin of Inl e \<Rightarrow> False | Inr c \<Rightarrow> True"
    by code_simp
  then show ?thesis by (cases "config_hook sample_process sample_plugin") simp_all
qed

section \<open>Properties of the plugin\<close>

subsection \<open>\<^verbatim>\<open>loadConfig\<close>\<close>

text \<open>
  \<^bold>\<open>C1\<close> (shallow merge). When the configuration file can be read and parses to a JSON
  object, \<open>loadConfig\<close> returns a configuration in which every member of the parsed object
  has exactly the parsed value, whatever that value is (the member \<^verbatim>\<open>__proto__\<close> apart,
  which the assignment takes as the prototype), and in which each of \<^verbatim>\<open>outDir\<close>,
  \<^verbatim>\<open>entry\<close>, \<^verbatim>\<open>host\<close>, \<^verbatim>\<open>port\<close>, \<^verbatim>\<open>root\<close> and \<^verbatim>\<open>aliases\<close> that the file leaves out has its
  default: \<^verbatim>\<open>public\<close>, \<^verbatim>\<open>entry\<close>, \<^verbatim>\<open>127.0.0.1\<close>, \<^verbatim>\<open>3010\<close>, \<^verbatim>\<open>src/js\<close> and the list
  \<^verbatim>\<open>js\<close>, \<^verbatim>\<open>css\<close>, \<^verbatim>\<open>images\<close>, \<^verbatim>\<open>fonts\<close>. A present key replaces its default as a whole.
\<close>

theorem loadConfig_shallow_merge:
  assumes "readFileSync ps configPath = Inr text"
    and "JSON_parse ps text = Some (JObj members)"
    and "distinct (map fst members)"
  shows "\<exists>config. loadConfig ps configPath = Inr config \<and>
    (\<forall>k v. k \<noteq> ''__proto__'' \<longrightarrow> map_of members k = Some v \<longrightarrow> get config k = Some v) \<and>
    (map_of members ''outDir'' = None \<longrightarrow> get config ''outDir'' = Some (JStr ''public'')) \<and>
    (map_of members ''entry'' = None \<longrightarrow> get config ''entry'' = Some (JStr ''entry'')) \<and>
    (map_of members ''host'' = None \<longrightarrow> get config ''host'' = Some (JStr ''127.0.0.1'')) \<and>
    (map_of members ''port'' = None \<longrightarrow> get config ''port'' = Some (JNum 3010)) \<and>
    (map_of members ''root'' = None \<longrightarrow> get config ''root'' = Some (JStr ''src/js'')) \<and>
    (map_of members ''aliases'' = None \<longrightarrow>
       get config ''aliases'' = Some (JArr [JStr ''js'', JStr ''css'', JStr ''images'', JStr ''fonts'']))"
proof -
  let ?c = "Object_assign config_defaults (JObj members)"
  have l: "loadConfig ps configPath = Inr ?c"
    using assms(1,2) by (simp add: loadConfig_def)
  have present: "\<forall>k v. k \<noteq> ''__proto__'' \<longrightarrow> map_of members k = Some v \<longrightarrow> get ?c k = Some v"
    using merged_own [OF _ assms(3)] by (auto intro!: get_own)
  have absent: "\<And>k v. k \<noteq> ''__proto__'' \<Longrightarrow> map_of (own config_defaults) k = Some v \<Longrightarrow>
      map_of members k = None \<longrightarrow> get ?c k = Some v"
    using merged_own [OF _ assms(3)] by (auto intro!: get_own)
  have d1: "map_of members ''outDir'' = None \<longrightarrow> get ?c ''outDir'' = Some (JStr ''public'')"
    by (rule absent) (simp_all add: config_defaults_def)
  have d2: "map_of members ''entry'' = None \<longrightarrow> get ?c ''entry'' = Some (JStr ''entry'')"
    by (rule absent) (simp_all add: config_defaults_def)
  have d3: "map_of members ''host'' = None \<longrightarrow> get ?c ''host'' = Some (JStr ''127.0.0.1'')"
    by (rule absent) (simp_all add: config_defaults_def)
  have d4: "map_of members ''port'' = None \<longrightarrow> get ?c ''port'' = Some (JNum 3010)"
    by (rule absent) (simp_all add: config_defaults_def)
  have d5: "map_of members ''root'' = None \<longrightarrow> get ?c ''root'' = Some (JStr ''src/js'')"
    by (rule absent) (simp_all add: config_defaults_def)
  have d6: "map_of members ''aliases'' = None \<longrightarrow>
      get ?c ''aliases'' = Some (JArr [JStr ''js'', JStr ''css'', JStr ''images'', JStr ''fonts''])"
    by (rule absent) (simp_all add: config_defaults_def)
  show ?thesis
    by (rule exI [of _ ?c]) (intro conjI l present d1 d2 d3 d4 d5 d6)
qed

text \<open>
  On the sample project the file sets \<^verbatim>\<open>port\<close> and \<^verbatim>\<open>aliases\<close>: both are taken as they
  are, the list of aliases is replaced and not extended, and the other four keys keep their
  defaults.
\<close>

theorem loadConfig_shallow_merge_witness:
  "\<exists>config. loadConfig sample_process ''config/lucky_vite.json'' = Inr config \<and>
     get config ''port'' = Some (JNum 4000) \<and>
     get config ''aliases'' = Some (JArr [JStr ''app'']) \<and>
     get config ''outDir'' = Some (JStr ''public'') \<and>
     get config ''entry'' = Some (JStr ''entry'') \<and>
     get config ''host'' = Some (JStr ''127.0.0.1'') \<and>
     get config ''root'' = Some (JStr ''src/js'')"
proof -
  have r: "readFileSync sample_process ''config/lucky_vite.json'' = Inr sample_text"
    by code_simp
  have p: "JSON_parse sample_process sample_text = Some (JObj sample_members)"
    by code_simp
  have d: "distinct (map fst sample_members)"
    by (simp add: sample_members_def)
  have m: "map_of sample_members ''port'' = Some (JNum 4000)"
    "map_of sample_members ''aliases'' = Some (JArr [JStr ''app''])"
    "map_of sample_members ''outDir'' = None"
    "map_of sample_members ''entry'' = None"
    "map_of sample_members ''host'' = None"
    "map_of sample_members ''root'' = None"
    by (simp_all add: sample_members_def)
  from loadConfig_shallow_merge [OF r p d] m show ?thesis
    by auto
qed

text \<open>
  \<^bold>\<open>C2\<close> (no plugin without a configuration file). The path is the one given, or
  \<^verbatim>\<open>config/lucky_vite.json\<close>. When nothing exists at the path, the default export returns no
  plugin object: it fails with the error of the read, \<open>ENOENT\<close>, or \<open>ENOTDIR\<close> when a part
  of the path is a file. Any other error of the read is passed on unchanged. When the file
  is read and its content is not JSON, it fails with \<open>SyntaxError\<close>. In none of these
  cases are the defaults used.
\<close>

theorem LuckyPlugin_needs_config_file:
  assumes "configPath = (case options of None \<Rightarrow> ''config/lucky_vite.json'' | Some p \<Rightarrow> p)"
  shows "(\<not> existsSync ps configPath \<longrightarrow>
            LuckyPlugin ps options = Inl ENOENT \<or> LuckyPlugin ps options = Inl ENOTDIR) \<and>
         (\<forall>e. readFileSync ps configPath = Inl e \<longrightarrow> LuckyPlugin ps options = Inl e) \<and>
         (\<forall>text. readFileSync ps configPath = Inr text \<longrightarrow> JSON_parse ps text = None \<longrightarrow>
            LuckyPlugin ps options = Inl SyntaxError)"
proof -
  have a: "\<And>e. readFileSync ps configPath = Inl e \<Longrightarrow> LuckyPlugin ps options = Inl e"
    using assms by (simp add: LuckyPlugin_def loadConfig_def)
  have b: "\<And>text. readFileSync ps configPath = Inr text \<Longrightarrow> JSON_parse ps text = None \<Longrightarrow>
      LuckyPlugin ps options = Inl SyntaxError"
    using assms by (simp add: LuckyPlugin_def loadConfig_def)
  have c: "\<not> existsSync ps configPath \<Longrightarrow>
      LuckyPlugin ps options = Inl ENOENT \<or> LuckyPlugin ps options = Inl ENOTDIR"
  proof -
    assume gone: "\<not> existsSync ps configPath"
    show ?thesis
    proof (cases "realpath ps configPath")
      case (Inl e)
      then have "readFileSync ps configPath = Inl e" by (simp add: readFileSync_def)
      then show ?thesis using a realpath_errors [OF Inl] by auto
    next
      case (Inr cs)
      then have "readFileSync ps configPath = Inl ENOENT"
        using gone by (auto simp: existsSync_def readFileSync_def split: option.splits node.splits)
      then show ?thesis using a by simp
    qed
  qed
  show ?thesis
    by (intro conjI allI impI) (erule c, erule a, erule b, assumption)
qed

text \<open>
  On the sample project: a path with no file, a file that is not JSON, and the default
  path on a disk where the project has no \<^verbatim>\<open>config\<close> directory.
\<close>

theorem LuckyPlugin_needs_config_file_witness:
  "LuckyPlugin sample_process (Some ''config/missing.json'') = Inl ENOENT \<and>
   LuckyPlugin sample_process (Some ''config/broken.json'') = Inl SyntaxError \<and>
   \<not> existsSync (sample_process\<lparr>disk := Dir [(''app'', Dir [])]\<rparr>) ''config/lucky_vite.json'' \<and>
   LuckyPlugin (sample_process\<lparr>disk := Dir [(''app'', Dir [])]\<rparr>) None = Inl ENOENT"
proof -
  let ?bare = "sample_process\<lparr>disk := Dir [(''app'', Dir [])]\<rparr>"
  have a: "readFileSync sample_process ''config/missing.json'' = Inl ENOENT" by code_simp
  have b: "readFileSync sample_process ''config/broken.json'' = Inr ''{''" by code_simp
  have c: "JSON_parse sample_process ''{'' = None" by code_simp
  have d: "\<not> existsSync ?bare ''config/lucky_vite.json''" by code_simp
  have e: "readFileSync ?bare ''config/lucky_vite.json'' = Inl ENOENT" by code_simp
  have 1: "LuckyPlugin sample_process (Some ''config/missing.json'') = Inl ENOENT"
    using LuckyPlugin_needs_config_file
      [of "''config/missing.json''" "Some ''config/missing.json''" sample_process] a
    by simp
  have 2: "LuckyPlugin sample_process (Some ''config/broken.json'') = Inl SyntaxError"
    using LuckyPlugin_needs_config_file
      [of "''config/broken.json''" "Some ''config/broken.json''" sample_process] b c
    by simp
  have 3: "LuckyPlugin ?bare None = Inl ENOENT"
    using LuckyPlugin_needs_config_file [of "''config/lucky_vite.json''" None ?bare] e
    by simp
  show ?thesis using 1 2 d 3 by simp
qed

subsection \<open>\<^verbatim>\<open>determineAssetFilePath\<close> and the output file names\<close>

text \<open>
  \<^bold>\<open>C3\<close> (asset paths). The template of an asset is decided by the end of its name, an
  absent name counting as empty, the first rule that applies winning: an image extension
  gives \<^verbatim>\<open>images/\<close>, \<^verbatim>\<open>.css\<close> gives \<^verbatim>\<open>css/\<close>, \<^verbatim>\<open>.woff\<close> or \<^verbatim>\<open>.woff2\<close> gives \<^verbatim>\<open>fonts/\<close>,
  anything else no directory. Whenever the \<^verbatim>\<open>config\<close> hook returns, entries and chunks are
  named \<^verbatim>\<open>js/[name].[hash].js\<close> and assets by this function.
\<close>

theorem asset_path_policy:
  "determineAssetFilePath asset =
     (let name = (case asset of None \<Rightarrow> [] | Some n \<Rightarrow> n)
      in if suffix ''.gif'' name \<or> suffix ''.jpg'' name \<or> suffix ''.jpeg'' name \<or>
            suffix ''.png'' name \<or> suffix ''.webp'' name \<or> suffix ''.avif'' name \<or>
            suffix ''.svg'' name
         then ''images/[name].[hash][extname]''
         else if suffix ''.css'' name then ''css/[name].[hash][extname]''
         else if suffix ''.woff'' name \<or> suffix ''.woff2'' name
         then ''fonts/[name].[hash][extname]''
         else ''[name].[hash][extname]'') \<and>
   (\<forall>c. config_hook ps pl = Inr c \<longrightarrow>
      entryFileNames c = ''js/[name].[hash].js'' \<and>
      chunkFileNames c = ''js/[name].[hash].js'' \<and>
      assetFileNames c = determineAssetFilePath)"
proof -
  have a: "determineAssetFilePath asset =
     (let name = (case asset of None \<Rightarrow> [] | Some n \<Rightarrow> n)
      in if suffix ''.gif'' name \<or> suffix ''.jpg'' name \<or> suffix ''.jpeg'' name \<or>
            suffix ''.png'' name \<or> suffix ''.webp'' name \<or> suffix ''.avif'' name \<or>
            suffix ''.svg'' name
         then ''images/[name].[hash][extname]''
         else if suffix ''.css'' name then ''css/[name].[hash][extname]''
         else if suffix ''.woff'' name \<or> suffix ''.woff2'' name
         then ''fonts/[name].[hash][extname]''
         else ''[name].[hash][extname]'')"
    unfolding determineAssetFilePath_def Let_def image_regex_test css_regex_test font_regex_test
    by (simp add: formatAssetFilePath_def)
  have b: "\<forall>c. config_hook ps pl = Inr c \<longrightarrow>
      entryFileNames c = ''js/[name].[hash].js'' \<and>
      chunkFileNames c = ''js/[name].[hash].js'' \<and>
      assetFileNames c = determineAssetFilePath"
    using config_hook_fields(1,2,3) [of ps pl] by (simp add: formatAssetFilePath_def)
  show ?thesis by (rule conjI [OF a b])
qed

theorem asset_path_policy_witness:
  "determineAssetFilePath (Some ''logo.svg'') = ''images/[name].[hash][extname]'' \<and>
   determineAssetFilePath (Some ''style.css'') = ''css/[name].[hash][extname]'' \<and>
   determineAssetFilePath (Some ''font.woff2'') = ''fonts/[name].[hash][extname]'' \<and>
   determineAssetFilePath (Some ''data.json'') = ''[name].[hash][extname]'' \<and>
   determineAssetFilePath None = ''[name].[hash][extname]'' \<and>
   (\<exists>c. config_hook sample_process sample_plugin = Inr c \<and>
        entryFileNames c = ''js/[name].[hash].js'' \<and> chunkFileNames c = ''js/[name].[hash].js'')"
proof -
  have 1: "determineAssetFilePath (Some ''logo.svg'') = ''images/[name].[hash][extname]''"
    using asset_path_policy [of "Some ''logo.svg''" sample_process sample_plugin]
    by (simp add: suffix_to_prefix)
  have 2: "determineAssetFilePath (Some ''style.css'') = ''css/[name].[hash][extname]''"
    using asset_path_policy [of "Some ''style.css''" sample_process sample_plugin]
    by (simp add: suffix_to_prefix)
  have 3: "determineAssetFilePath (Some ''font.woff2'') = ''fonts/[name].[hash][extname]''"
    using asset_path_policy [of "Some ''font.woff2''" sample_process sample_plugin]
    by (simp add: suffix_to_prefix)
  have 4: "determineAssetFilePath (Some ''data.json'') = ''[name].[hash][extname]''"
    using asset_path_policy [of "Some ''data.json''" sample_process sample_plugin]
    by (simp add: suffix_to_prefix)
  have 5: "determineAssetFilePath None = ''[name].[hash][extname]''"
    using asset_path_policy [of None sample_process sample_plugin]
    by (simp add: suffix_to_prefix)
  obtain c where c: "config_hook sample_process sample_plugin = Inr c"
    using sample_config_hook by blast
  then have 6: "entryFileNames c = ''js/[name].[hash].js'' \<and> chunkFileNames c = ''js/[name].[hash].js''"
    using asset_path_policy [of None sample_process sample_plugin] by blast
  show ?thesis using 1 2 3 4 5 6 c by blast
qed

subsection \<open>\<^verbatim>\<open>configureServer\<close>\<close>

text \<open>
  \<^bold>\<open>C4\<close> (origin of the server). With a string for the host and a port that prints as
  \<open>p\<close>: when \<^verbatim>\<open>origin\<close> is absent, or is empty or otherwise falsy, the origin returned is
  \<^verbatim>\<open>http://host:port\<close>, with \<^verbatim>\<open>https\<close> when the \<^verbatim>\<open>https\<close> flag is set. When \<^verbatim>\<open>origin\<close> is a
  string that is not empty, it is returned unchanged, whatever the host, port and flag
  are. In both cases the call fails when the origin does not parse as a URL, and otherwise
  the host name, port and secure flag returned are the ones parsed from that origin. With
  the host \<^verbatim>\<open>localhost\<close>, the port 3010 and no \<^verbatim>\<open>https\<close> the result is the origin
  \<^verbatim>\<open>http://localhost:3010\<close> with the host name \<^verbatim>\<open>localhost\<close>, the port \<^verbatim>\<open>3010\<close> and not secure.
\<close>

theorem configureServer_origin:
  "(get c ''host'' = Some (JStr h) \<longrightarrow> template_string (get c ''port'') = Inr p \<longrightarrow>
      \<not> truthy (get c ''origin'') \<longrightarrow>
      href = (if truthy (get c ''https'') then ''https'' else ''http'') @ ''://'' @ h @ '':'' @ p \<longrightarrow>
      configureServer ps c =
        (case new_URL ps href of
           None \<Rightarrow> Inl InvalidURL
         | Some uri \<Rightarrow>
             Inr \<lparr>server_origin = JStr href,
                  server_host = url_hostname uri,
                  server_port = url_port uri,
                  server_https = (url_protocol uri = ''https:'')\<rparr>)) \<and>
   (get c ''origin'' = Some (JStr given) \<longrightarrow> given \<noteq> [] \<longrightarrow>
      configureServer ps c =
        (case new_URL ps given of
           None \<Rightarrow> Inl InvalidURL
         | Some uri \<Rightarrow>
             Inr \<lparr>server_origin = JStr given,
                  server_host = url_hostname uri,
                  server_port = url_port uri,
                  server_https = (url_protocol uri = ''https:'')\<rparr>)) \<and>
   (get c ''host'' = Some (JStr ''localhost'') \<longrightarrow> get c ''port'' = Some (JNum 3010) \<longrightarrow>
      get c ''https'' = Some (JBool False) \<or> get c ''https'' = None \<longrightarrow>
      get c ''origin'' = None \<longrightarrow>
      new_URL ps ''http://localhost:3010'' =
        Some \<lparr>url_hostname = ''localhost'', url_port = ''3010'', url_protocol = ''http:''\<rparr> \<longrightarrow>
      configureServer ps c =
        Inr \<lparr>server_origin = JStr ''http://localhost:3010'',
             server_host = ''localhost'',
             server_port = ''3010'',
             server_https = False\<rparr>)"
proof (intro conjI impI)
  assume "get c ''host'' = Some (JStr h)" and "template_string (get c ''port'') = Inr p"
    and "\<not> truthy (get c ''origin'')"
    and "href = (if truthy (get c ''https'') then ''https'' else ''http'') @ ''://'' @ h @ '':'' @ p"
  then show "configureServer ps c =
        (case new_URL ps href of
           None \<Rightarrow> Inl InvalidURL
         | Some uri \<Rightarrow>
             Inr \<lparr>server_origin = JStr href,
                  server_host = url_hostname uri,
                  server_port = url_port uri,
                  server_https = (url_protocol uri = ''https:'')\<rparr>)"
    by (intro configureServer_synthesized [where h = h and p = p]) (simp_all add: template_string_def)
next
  assume "get c ''origin'' = Some (JStr given)" and "given \<noteq> []"
  then show "configureServer ps c =
        (case new_URL ps given of
           None \<Rightarrow> Inl InvalidURL
         | Some uri \<Rightarrow>
             Inr \<lparr>server_origin = JStr given,
                  server_host = url_hostname uri,
                  server_port = url_port uri,
                  server_https = (url_protocol uri = ''https:'')\<rparr>)"
    by (rule configureServer_supplied)
next
  assume h: "get c ''host'' = Some (JStr ''localhost'')" and p: "get c ''port'' = Some (JNum 3010)"
    and s: "get c ''https'' = Some (JBool False) \<or> get c ''https'' = None"
    and o: "get c ''origin'' = None"
    and u: "new_URL ps ''http://localhost:3010'' =
        Some \<lparr>url_hostname = ''localhost'', url_port = ''3010'', url_protocol = ''http:''\<rparr>"
  have d: "dec_int 3010 = ''3010''" by code_simp
  have "configureServer ps c =
     (case new_URL ps ''http://localhost:3010'' of
        None \<Rightarrow> Inl InvalidURL
      | Some uri \<Rightarrow>
          Inr \<lparr>server_origin = JStr ''http://localhost:3010'',
               server_host = url_hostname uri,
               server_port = url_port uri,
               server_https = (url_protocol uri = ''https:'')\<rparr>)"
    using h p s o d
    by (intro configureServer_synthesized [where h = "''localhost''" and p = "''3010''"])
       (auto simp: template_string_def)
  then show "configureServer ps c =
        Inr \<lparr>server_origin = JStr ''http://localhost:3010'',
             server_host = ''localhost'',
             server_port = ''3010'',
             server_https = False\<rparr>"
    using u by simp
qed

theorem configureServer_origin_witness:
  "configureServer sample_process (server_config (JStr ''localhost'') (JNum 3010) []) =
     Inr \<lparr>server_origin = JStr ''http://localhost:3010'', server_host = ''localhost'',
          server_port = ''3010'', server_https = False\<rparr> \<and>
   configureServer sample_process
       (server_config (JStr ''localhost'') (JNum 3010)
          [(''origin'', JStr ''https://assets.example.com:8443'')]) =
     Inr \<lparr>server_origin = JStr ''https://assets.example.com:8443'',
          server_host = ''assets.example.com'', server_port = ''8443'', server_https = True\<rparr> \<and>
   configureServer sample_process
       (server_config (JStr ''0.0.0.0'') (JStr ''3010'') [(''https'', JBool True)]) =
     Inr \<lparr>server_origin = JStr ''https://0.0.0.0:3010'', server_host = ''0.0.0.0'',
          server_port = ''3010'', server_https = True\<rparr>"
proof -
  let ?a = "server_config (JStr ''localhost'') (JNum 3010) []"
  let ?b = "server_config (JStr ''localhost'') (JNum 3010)
              [(''origin'', JStr ''https://assets.example.com:8443'')]"
  let ?c = "server_config (JStr ''0.0.0.0'') (JStr ''3010'') [(''https'', JBool True)]"
  have a: "get ?a ''host'' = Some (JStr ''localhost'')" "get ?a ''port'' = Some (JNum 3010)"
    "get ?a ''https'' = None" "get ?a ''origin'' = None"
    by code_simp+
  have ua: "new_URL sample_process ''http://localhost:3010'' =
      Some \<lparr>url_hostname = ''localhost'', url_port = ''3010'', url_protocol = ''http:''\<rparr>"
    by code_simp
  have 1: "configureServer sample_process ?a =
     Inr \<lparr>server_origin = JStr ''http://localhost:3010'', server_host = ''localhost'',
          server_port = ''3010'', server_https = False\<rparr>"
    using configureServer_origin [of ?a _ _ _ sample_process] a ua by blast
  have b: "get ?b ''origin'' = Some (JStr ''https://assets.example.com:8443'')" by code_simp
  have ub: "new_URL sample_process ''https://assets.example.com:8443'' =
      Some \<lparr>url_hostname = ''assets.example.com'', url_port = ''8443'', url_protocol = ''https:''\<rparr>"
    by code_simp
  have 2: "configureServer sample_process ?b =
     Inr \<lparr>server_origin = JStr ''https://assets.example.com:8443'',
          server_host = ''assets.example.com'', server_port = ''8443'', server_https = True\<rparr>"
    using configureServer_origin [of ?b _ _ _ sample_process "''https://assets.example.com:8443''"]
      b ub by simp
  have c: "get ?c ''host'' = Some (JStr ''0.0.0.0'')"
    "template_string (get ?c ''port'') = Inr ''3010''"
    "\<not> truthy (get ?c ''origin'')" "truthy (get ?c ''https'')"
    by code_simp+
  have uc: "new_URL sample_process ''https://0.0.0.0:3010'' =
      Some \<lparr>url_hostname = ''0.0.0.0'', url_port = ''3010'', url_protocol = ''https:''\<rparr>"
    by code_simp
  have 3: "configureServer sample_process ?c =
     Inr \<lparr>server_origin = JStr ''https://0.0.0.0:3010'', server_host = ''0.0.0.0'',
          server_port = ''3010'', server_https = True\<rparr>"
    using configureServer_origin [of ?c "''0.0.0.0''" "''3010''" "''https://0.0.0.0:3010''" sample_process]
      c uc by simp
  show ?thesis using 1 2 3 by simp
qed

text \<open>
  An origin that is supplied but empty is not returned unchanged: \<^verbatim>\<open>||=\<close> replaces it by
  the synthesized one.
\<close>

theorem configureServer_origin_counterexample:
  "get (server_config (JStr ''localhost'') (JNum 3010) [(''origin'', JStr [])]) ''origin'' =
     Some (JStr []) \<and>
   configureServer sample_process
       (server_config (JStr ''localhost'') (JNum 3010) [(''origin'', JStr [])]) =
     Inr \<lparr>server_origin = JStr ''http://localhost:3010'', server_host = ''localhost'',
          server_port = ''3010'', server_https = False\<rparr> \<and>
   JStr ''http://localhost:3010'' \<noteq> JStr []"
  by code_simp

text \<open>
  \<^bold>\<open>C8\<close> (host \<^verbatim>\<open>true\<close>). When the host is the boolean \<^verbatim>\<open>true\<close> and no origin is given,
  the origin is synthesized with the address \<^verbatim>\<open>0.0.0.0\<close> in place of the host:
  \<^verbatim>\<open>http://0.0.0.0:port\<close>, or \<^verbatim>\<open>https://0.0.0.0:port\<close> when the \<^verbatim>\<open>https\<close> flag is set.
\<close>

theorem host_true_binds_all_interfaces:
  assumes "get c ''host'' = Some (JBool True)"
    and "template_string (get c ''port'') = Inr p"
    and "\<not> truthy (get c ''origin'')"
    and "href = (if truthy (get c ''https'') then ''https'' else ''http'') @ ''://0.0.0.0:'' @ p"
  shows "configureServer ps c =
     (case new_URL ps href of
        None \<Rightarrow> Inl InvalidURL
      | Some uri \<Rightarrow>
          Inr \<lparr>server_origin = JStr href,
               server_host = url_hostname uri,
               server_port = url_port uri,
               server_https = (url_protocol uri = ''https:'')\<rparr>)"
  using assms
  by (intro configureServer_synthesized [where h = "''0.0.0.0''" and p = p])
     (simp_all add: template_string_def)

theorem host_true_binds_all_interfaces_witness:
  "configureServer sample_process (server_config (JBool True) (JNum 3010) []) =
     Inr \<lparr>server_origin = JStr ''http://0.0.0.0:3010'', server_host = ''0.0.0.0'',
          server_port = ''3010'', server_https = False\<rparr> \<and>
   configureServer sample_process (server_config (JBool True) (JStr ''3010'') [(''https'', JBool True)]) =
     Inr \<lparr>server_origin = JStr ''https://0.0.0.0:3010'', server_host = ''0.0.0.0'',
          server_port = ''3010'', server_https = True\<rparr>"
proof -
  let ?a = "server_config (JBool True) (JNum 3010) []"
  let ?b = "server_config (JBool True) (JStr ''3010'') [(''https'', JBool True)]"
  have a: "get ?a ''host'' = Some (JBool True)" "template_string (get ?a ''port'') = Inr ''3010''"
    "\<not> truthy (get ?a ''origin'')" "\<not> truthy (get ?a ''https'')"
    by code_simp+
  have b: "get ?b ''host'' = Some (JBool True)" "template_string (get ?b ''port'') = Inr ''3010''"
    "\<not> truthy (get ?b ''origin'')" "truthy (get ?b ''https'')"
    by code_simp+
  have ua: "new_URL sample_process ''http://0.0.0.0:3010'' =
      Some \<lparr>url_hostname = ''0.0.0.0'', url_port = ''3010'', url_protocol = ''http:''\<rparr>"
    by code_simp
  have ub: "new_URL sample_process ''https://0.0.0.0:3010'' =
      Some \<lparr>url_hostname = ''0.0.0.0'', url_port = ''3010'', url_protocol = ''https:''\<rparr>"
    by code_simp
  have 1: "configureServer sample_process ?a =
     Inr \<lparr>server_origin = JStr ''http://0.0.0.0:3010'', server_host = ''0.0.0.0'',
          server_port = ''3010'', server_https = False\<rparr>"
    using host_true_binds_all_interfaces [OF a(1,2,3), of "''http://0.0.0.0:3010''" sample_process]
      a(4) ua by simp
  have 2: "configureServer sample_process ?b =
     Inr \<lparr>server_origin = JStr ''https://0.0.0.0:3010'', server_host = ''0.0.0.0'',
          server_port = ''3010'', server_https = True\<rparr>"
    using host_true_binds_all_interfaces [OF b(1,2,3), of "''https://0.0.0.0:3010''" sample_process]
      b(4) ub by simp
  show ?thesis using 1 2 by simp
qed

text \<open>
  \<^bold>\<open>C10\<close> (host \<^verbatim>\<open>false\<close>). The test is on the type of the host, so the boolean \<^verbatim>\<open>false\<close>
  is replaced by \<^verbatim>\<open>0.0.0.0\<close> as well. With the host \<^verbatim>\<open>false\<close>, the port 3010 and \<^verbatim>\<open>https\<close>
  \<^verbatim>\<open>false\<close> the origin is \<^verbatim>\<open>http://0.0.0.0:3010\<close>, provided it parses as a URL.
\<close>

theorem host_false_binds_all_interfaces:
  "(get c ''host'' = Some (JBool False) \<longrightarrow> template_string (get c ''port'') = Inr p \<longrightarrow>
      \<not> truthy (get c ''origin'') \<longrightarrow>
      href = (if truthy (get c ''https'') then ''https'' else ''http'') @ ''://0.0.0.0:'' @ p \<longrightarrow>
      configureServer ps c =
        (case new_URL ps href of
           None \<Rightarrow> Inl InvalidURL
         | Some uri \<Rightarrow>
             Inr \<lparr>server_origin = JStr href,
                  server_host = url_hostname uri,
                  server_port = url_port uri,
                  server_https = (url_protocol uri = ''https:'')\<rparr>)) \<and>
   (get c ''host'' = Some (JBool False) \<longrightarrow> get c ''port'' = Some (JNum 3010) \<longrightarrow>
      get c ''https'' = Some (JBool False) \<longrightarrow> get c ''origin'' = None \<longrightarrow>
      new_URL ps ''http://0.0.0.0:3010'' = Some uri \<longrightarrow>
      configureServer ps c =
        Inr \<lparr>server_origin = JStr ''http://0.0.0.0:3010'',
             server_host = url_hostname uri,
             server_port = url_port uri,
             server_https = (url_protocol uri = ''https:'')\<rparr>)"
proof (intro conjI impI)
  assume "get c ''host'' = Some (JBool False)" and "template_string (get c ''port'') = Inr p"
    and "\<not> truthy (get c ''origin'')"
    and "href = (if truthy (get c ''https'') then ''https'' else ''http'') @ ''://0.0.0.0:'' @ p"
  then show "configureServer ps c =
        (case new_URL ps href of
           None \<Rightarrow> Inl InvalidURL
         | Some uri \<Rightarrow>
             Inr \<lparr>server_origin = JStr href,
                  server_host = url_hostname uri,
                  server_port = url_port uri,
                  server_https = (url_protocol uri = ''https:'')\<rparr>)"
    by (intro configureServer_synthesized [where h = "''0.0.0.0''" and p = p])
       (simp_all add: template_string_def)
next
  assume h: "get c ''host'' = Some (JBool False)" and p: "get c ''port'' = Some (JNum 3010)"
    and s: "get c ''https'' = Some (JBool False)" and o: "get c ''origin'' = None"
    and u: "new_URL ps ''http://0.0.0.0:3010'' = Some uri"
  have d: "dec_int 3010 = ''3010''" by code_simp
  have "configureServer ps c =
     (case new_URL ps ''http://0.0.0.0:3010'' of
        None \<Rightarrow> Inl InvalidURL
      | Some uri \<Rightarrow>
          Inr \<lparr>server_origin = JStr ''http://0.0.0.0:3010'',
               server_host = url_hostname uri,
               server_port = url_port uri,
               server_https = (url_protocol uri = ''https:'')\<rparr>)"
    using h p s o d
    by (intro configureServer_synthesized [where h = "''0.0.0.0''" and p = "''3010''"])
       (simp_all add: template_string_def)
  then show "configureServer ps c =
        Inr \<lparr>server_origin = JStr ''http://0.0.0.0:3010'',
             server_host = url_hostname uri,
             server_port = url_port uri,
             server_https = (url_protocol uri = ''https:'')\<rparr>"
    using u by simp
qed

theorem host_false_binds_all_interfaces_witness:
  "configureServer sample_process
       (server_config (JBool False) (JNum 3010) [(''https'', JBool False)]) =
     Inr \<lparr>server_origin = JStr ''http://0.0.0.0:3010'', server_host = ''0.0.0.0'',
          server_port = ''3010'', server_https = False\<rparr> \<and>
   configureServer sample_process
       (server_config (JBool False) (JStr ''3010'') [(''https'', JBool True)]) =
     Inr \<lparr>server_origin = JStr ''https://0.0.0.0:3010'', server_host = ''0.0.0.0'',
          server_port = ''3010'', server_https = True\<rparr>"
proof -
  let ?a = "server_config (JBool False) (JNum 3010) [(''https'', JBool False)]"
  let ?b = "server_config (JBool False) (JStr ''3010'') [(''https'', JBool True)]"
  have a: "get ?a ''host'' = Some (JBool False)" "get ?a ''port'' = Some (JNum 3010)"
    "get ?a ''https'' = Some (JBool False)" "get ?a ''origin'' = None"
    by code_simp+
  have b: "get ?b ''host'' = Some (JBool False)" "template_string (get ?b ''port'') = Inr ''3010''"
    "\<not> truthy (get ?b ''origin'')" "truthy (get ?b ''https'')"
    by code_simp+
  have ua: "new_URL sample_process ''http://0.0.0.0:3010'' =
      Some \<lparr>url_hostname = ''0.0.0.0'', url_port = ''3010'', url_protocol = ''http:''\<rparr>"
    by code_simp
  have ub: "new_URL sample_process ''https://0.0.0.0:3010'' =
      Some \<lparr>url_hostname = ''0.0.0.0'', url_port = ''3010'', url_protocol = ''https:''\<rparr>"
    by code_simp
  have 1: "configureServer sample_process ?a =
     Inr \<lparr>server_origin = JStr ''http://0.0.0.0:3010'', server_host = ''0.0.0.0'',
          server_port = ''3010'', server_https = False\<rparr>"
    using host_false_binds_all_interfaces [of ?a _ _ sample_process] a ua by simp
  have 2: "configureServer sample_process ?b =
     Inr \<lparr>server_origin = JStr ''https://0.0.0.0:3010'', server_host = ''0.0.0.0'',
          server_port = ''3010'', server_https = True\<rparr>"
    using host_false_binds_all_interfaces [of ?b "''3010''" "''https://0.0.0.0:3010''" sample_process]
      b ub by simp
  show ?thesis using 1 2 by simp
qed

subsection \<open>\<^verbatim>\<open>buildStart\<close>\<close>

text \<open>
  \<^bold>\<open>C5\<close> (cleaning the output directory). Let the working directory be absolute,
  \<^verbatim>\<open>outDir\<close> a string, and \<open>dir\<close> the place of the output directory. The five names are
  \<^verbatim>\<open>js\<close>, \<^verbatim>\<open>css\<close>, \<^verbatim>\<open>images\<close>, \<^verbatim>\<open>fonts\<close> and \<^verbatim>\<open>.vite\<close>. The hook fails exactly when the
  operating system refuses to remove one of the five that exists, and then with the
  error of such a refusal; when none of the five exists it returns with the disk
  unchanged, so that an absent directory is not an error. Whenever it returns: the
  entries of the output directory are the entries it had, in their order and with their
  contents, except those of the five names, which are removed whether they are
  directories or regular files and kept only where they are dangling links; every path
  that is neither above nor below the output directory leads where it led before; none
  of the five exists; and running the hook again returns and leaves the disk as the
  first run left it.
\<close>

theorem buildStart_cleans_output_directories:
  assumes "isAbsolute (cwd ps)"
    and "get (plugin_config pl) ''outDir'' = Some (JStr od)"
    and "outDir = path_resolve (cwd ps) [LUCKY_ROOT ps, od]"
    and "dir = path_segments outDir"
  shows
   "(\<forall>e. buildStart ps pl = Inl e \<longrightarrow>
       (\<exists>d\<in>set [''js'', ''css'', ''images'', ''fonts'', ''.vite''].
          existsSync ps (path_join [outDir, d]) \<and> rm_refused ps (dir @ [d]) = Some e)) \<and>
    ((\<exists>d\<in>set [''js'', ''css'', ''images'', ''fonts'', ''.vite''].
          existsSync ps (path_join [outDir, d]) \<and> rm_refused ps (dir @ [d]) \<noteq> None) \<longrightarrow>
       (\<exists>e. buildStart ps pl = Inl e)) \<and>
    ((\<forall>d\<in>set [''js'', ''css'', ''images'', ''fonts'', ''.vite''].
         \<not> existsSync ps (path_join [outDir, d])) \<longrightarrow>
       buildStart ps pl = Inr (disk ps)) \<and>
    (\<forall>after. buildStart ps pl = Inr after \<longrightarrow>
       (\<forall>es. lookup (disk ps) dir = Some (Dir es) \<longrightarrow>
          lookup after dir =
            Some (Dir (filter (\<lambda>e. fst e \<notin> set [''js'', ''css'', ''images'', ''fonts'', ''.vite''] \<or>
                                    map_of es (fst e) = Some Dangling) es))) \<and>
       (\<forall>q. \<not> prefix dir q \<and> \<not> prefix q dir \<longrightarrow> lookup after q = lookup (disk ps) q) \<and>
       (\<forall>d\<in>set [''js'', ''css'', ''images'', ''fonts'', ''.vite''].
          \<not> existsSync (ps\<lparr>disk := after\<rparr>) (path_join [outDir, d])) \<and>
       buildStart (ps\<lparr>disk := after\<rparr>) pl = Inr after)"
proof -
  obtain segs where segs: "\<forall>s\<in>set segs. is_name s" and o: "outDir = abs_path segs"
    using path_resolve_absolute [OF assms(1)] assms(3) by blast
  have dir: "dir = segs" using assms(4) o path_segments_abs_path [OF segs] by simp
  have five: "[''js'', ''css'', ''images'', ''fonts'', ''.vite''] = dirsToClean"
    by (simp add: dirsToClean_def)
  let ?W = "\<lambda>n. fold without dirsToClean n"
  have run: "\<And>p. cwd p = cwd ps \<Longrightarrow> buildStart p pl = buildStart_loop p (abs_path segs) dirsToClean"
    using assms(2,3) o by (simp add: buildStart_def LUCKY_ROOT_def)
  have dist: "distinct dirsToClean" by (simp add: dirsToClean_def)
  have r1: "\<forall>e. buildStart ps pl = Inl e \<longrightarrow>
       (\<exists>d\<in>set dirsToClean.
          existsSync ps (path_join [outDir, d]) \<and> rm_refused ps (segs @ [d]) = Some e)"
    using run [of ps] buildStart_loop_Inl [OF segs dirsToClean_names dist, of ps] o by simp
  have r2: "(\<exists>d\<in>set dirsToClean.
          existsSync ps (path_join [outDir, d]) \<and> rm_refused ps (segs @ [d]) \<noteq> None) \<longrightarrow>
       (\<exists>e. buildStart ps pl = Inl e)"
    using run [of ps] buildStart_loop_refused [OF segs dirsToClean_names dist, of ps] o by simp
  have r3: "(\<forall>d\<in>set dirsToClean. \<not> existsSync ps (path_join [outDir, d])) \<longrightarrow>
       buildStart ps pl = Inr (disk ps)"
    using run [of ps] buildStart_loop_nothing [OF segs dirsToClean_names, of ps] o by simp
  have r4: "\<forall>after. buildStart ps pl = Inr after \<longrightarrow>
       (\<forall>es. lookup (disk ps) segs = Some (Dir es) \<longrightarrow>
          lookup after segs =
            Some (Dir (filter (\<lambda>e. fst e \<notin> set dirsToClean \<or>
                                    map_of es (fst e) = Some Dangling) es))) \<and>
       (\<forall>q. \<not> prefix segs q \<and> \<not> prefix q segs \<longrightarrow> lookup after q = lookup (disk ps) q) \<and>
       (\<forall>d\<in>set dirsToClean. \<not> existsSync (ps\<lparr>disk := after\<rparr>) (path_join [outDir, d])) \<and>
       buildStart (ps\<lparr>disk := after\<rparr>) pl = Inr after"
  proof (intro allI impI)
    fix after assume "buildStart ps pl = Inr after"
    then have after: "after = modify_at ?W (disk ps) segs"
      using run [of ps] buildStart_loop_Inr [OF segs dirsToClean_names, of ps after] by simp
    have a: "\<forall>es. lookup (disk ps) segs = Some (Dir es) \<longrightarrow>
          lookup after segs =
            Some (Dir (filter (\<lambda>e. fst e \<notin> set dirsToClean \<or>
                                    map_of es (fst e) = Some Dangling) es))"
      unfolding after by (simp add: lookup_modify_at fold_without_Dir)
    have b: "\<forall>q. \<not> prefix segs q \<and> \<not> prefix q segs \<longrightarrow> lookup after q = lookup (disk ps) q"
      unfolding after by (simp add: lookup_modify_at_other)
    have c: "\<forall>d\<in>set dirsToClean. \<not> existsSync (ps\<lparr>disk := after\<rparr>) (path_join [outDir, d])"
    proof
      fix d assume d: "d \<in> set dirsToClean"
      then have nm: "is_name d" using dirsToClean_names by blast
      have all: "\<forall>s\<in>set (segs @ [d]). is_name s" using segs nm by simp
      have "lookup after (segs @ [d]) = None \<or> lookup after (segs @ [d]) = Some Dangling"
        unfolding after by (rule lookup_cleaned_child [OF d])
      then have "\<not> existsSync (ps\<lparr>disk := after\<rparr>) (abs_path (segs @ [d]))"
        using existsSync_abs_path [OF all, of "ps\<lparr>disk := after\<rparr>"] by auto
      then show "\<not> existsSync (ps\<lparr>disk := after\<rparr>) (path_join [outDir, d])"
        using path_join_child [OF segs nm] o by simp
    qed
    have "buildStart_loop (ps\<lparr>disk := after\<rparr>) (abs_path segs) dirsToClean =
          Inr (disk (ps\<lparr>disk := after\<rparr>))"
      by (rule buildStart_loop_nothing [OF segs dirsToClean_names]) (use c o in simp)
    then have d: "buildStart (ps\<lparr>disk := after\<rparr>) pl = Inr after"
      using run [of "ps\<lparr>disk := after\<rparr>"] by simp
    show "(\<forall>es. lookup (disk ps) segs = Some (Dir es) \<longrightarrow>
          lookup after segs =
            Some (Dir (filter (\<lambda>e. fst e \<notin> set dirsToClean \<or>
                                    map_of es (fst e) = Some Dangling) es))) \<and>
       (\<forall>q. \<not> prefix segs q \<and> \<not> prefix q segs \<longrightarrow> lookup after q = lookup (disk ps) q) \<and>
       (\<forall>d\<in>set dirsToClean. \<not> existsSync (ps\<lparr>disk := after\<rparr>) (path_join [outDir, d])) \<and>
       buildStart (ps\<lparr>disk := after\<rparr>) pl = Inr after"
      by (intro conjI a b c d)
  qed
  show ?thesis
    unfolding dir five by (intro conjI r1 r2 r3 r4)
qed

text \<open>
  On the sample project all five are there and none is left, the icon stays, and the
  entry scripts are as they were; with an empty output directory nothing changes. On a
  second disk \<^verbatim>\<open>css\<close> is a dangling link, which stays, and when the removal of \<^verbatim>\<open>js\<close>
  is refused there, the hook fails with that error.
\<close>

theorem buildStart_cleans_output_directories_witness:
  "(\<exists>after. buildStart sample_process sample_plugin = Inr after \<and>
     lookup after [''app'', ''public''] = Some (Dir [(''favicon.ico'', File ''icon'')]) \<and>
     lookup after [''app'', ''src'', ''js'', ''entry'', ''main.js''] = Some (File ''// main'') \<and>
     \<not> existsSync (sample_process\<lparr>disk := after\<rparr>) ''/app/public/images'' \<and>
     buildStart (sample_process\<lparr>disk := after\<rparr>) sample_plugin = Inr after) \<and>
   buildStart (sample_process\<lparr>disk := Dir [(''app'', Dir [(''public'', Dir [])])]\<rparr>) sample_plugin =
     Inr (Dir [(''app'', Dir [(''public'', Dir [])])]) \<and>
   (\<exists>after.
      buildStart
        (sample_process\<lparr>disk := Dir [(''app'', Dir [(''public'',
           Dir [(''css'', Dangling), (''js'', Dir []), (''keep.txt'', File ''kept'')])])]\<rparr>)
        sample_plugin = Inr after \<and>
      lookup after [''app'', ''public''] =
        Some (Dir [(''css'', Dangling), (''keep.txt'', File ''kept'')])) \<and>
   buildStart
     (sample_process\<lparr>disk := Dir [(''app'', Dir [(''public'',
           Dir [(''css'', Dangling), (''js'', Dir []), (''keep.txt'', File ''kept'')])])],
        rm_refused := (\<lambda>place. if place = [''app'', ''public'', ''js''] then Some EACCES else None)\<rparr>)
     sample_plugin = Inl EACCES"
proof -
  have b: "get (plugin_config sample_plugin) ''outDir'' = Some (JStr ''public'')" by code_simp
  have s: "[''app'', ''public''] = path_segments ''/app/public''" by code_simp
  have first: "\<exists>after. buildStart sample_process sample_plugin = Inr after \<and>
     lookup after [''app'', ''public''] = Some (Dir [(''favicon.ico'', File ''icon'')]) \<and>
     lookup after [''app'', ''src'', ''js'', ''entry'', ''main.js''] = Some (File ''// main'') \<and>
     \<not> existsSync (sample_process\<lparr>disk := after\<rparr>) ''/app/public/images'' \<and>
     buildStart (sample_process\<lparr>disk := after\<rparr>) sample_plugin = Inr after"
  proof -
    have a: "isAbsolute (cwd sample_process)" by code_simp
    have c: "''/app/public'' =
        path_resolve (cwd sample_process) [LUCKY_ROOT sample_process, ''public'']"
      by code_simp
    have l: "lookup (disk sample_process) [''app'', ''public''] =
        Some (Dir [(''js'', Dir [(''main.4f2a.js'', File ''// built'')]),
                   (''favicon.ico'', File ''icon''),
                   (''css'', Dir []),
                   (''images'', Dir [(''logo.9c1d.svg'', File ''<svg/>'')]),
                   (''fonts'', Dir [(''body.77aa.woff2'', File ''font'')]),
                   (''.vite'', Dir [(''manifest.json'', File ''{}'')])])"
      by code_simp
    have o: "lookup (disk sample_process) [''app'', ''src'', ''js'', ''entry'', ''main.js''] =
        Some (File ''// main'')"
      by code_simp
    have j: "path_join [''/app/public'', ''images''] = ''/app/public/images''" by code_simp
    have n: "\<forall>d\<in>set [''js'', ''css'', ''images'', ''fonts'', ''.vite''].
        rm_refused sample_process ([''app'', ''public''] @ [d]) = None"
      by (simp add: sample_process_def)
    note t = buildStart_cleans_output_directories [OF a b c s]
    have "\<exists>after. buildStart sample_process sample_plugin = Inr after"
    proof (cases "buildStart sample_process sample_plugin")
      case (Inl e)
      then obtain d where "d \<in> set [''js'', ''css'', ''images'', ''fonts'', ''.vite'']"
        and "rm_refused sample_process ([''app'', ''public''] @ [d]) = Some e"
        using t by blast
      then show ?thesis using n by auto
    next
      case (Inr after)
      then show ?thesis by simp
    qed
    then obtain after where r: "buildStart sample_process sample_plugin = Inr after"
      by blast
    from t r have
      e: "\<forall>es. lookup (disk sample_process) [''app'', ''public''] = Some (Dir es) \<longrightarrow>
            lookup after [''app'', ''public''] =
              Some (Dir (filter (\<lambda>e. fst e \<notin> set [''js'', ''css'', ''images'', ''fonts'', ''.vite''] \<or>
                                      map_of es (fst e) = Some Dangling) es))"
      and q: "\<forall>q. \<not> prefix [''app'', ''public''] q \<and> \<not> prefix q [''app'', ''public''] \<longrightarrow>
            lookup after q = lookup (disk sample_process) q"
      and g: "\<forall>d\<in>set [''js'', ''css'', ''images'', ''fonts'', ''.vite''].
            \<not> existsSync (sample_process\<lparr>disk := after\<rparr>) (path_join [''/app/public'', d])"
      and i: "buildStart (sample_process\<lparr>disk := after\<rparr>) sample_plugin = Inr after"
      by blast+
    have 1: "lookup after [''app'', ''public''] = Some (Dir [(''favicon.ico'', File ''icon'')])"
      using e l by simp
    have 2: "lookup after [''app'', ''src'', ''js'', ''entry'', ''main.js''] = Some (File ''// main'')"
      using q [rule_format, of "[''app'', ''src'', ''js'', ''entry'', ''main.js'']"] o by simp
    have 3: "\<not> existsSync (sample_process\<lparr>disk := after\<rparr>) ''/app/public/images''"
      using g j by auto
    show ?thesis using r 1 2 3 i by blast
  qed
  have second: "buildStart (sample_process\<lparr>disk := Dir [(''app'', Dir [(''public'', Dir [])])]\<rparr>)
       sample_plugin = Inr (Dir [(''app'', Dir [(''public'', Dir [])])])"
  proof -
    let ?bare = "sample_process\<lparr>disk := Dir [(''app'', Dir [(''public'', Dir [])])]\<rparr>"
    have a: "isAbsolute (cwd ?bare)" by code_simp
    have c: "''/app/public'' = path_resolve (cwd ?bare) [LUCKY_ROOT ?bare, ''public'']"
      by code_simp
    have x: "\<forall>d\<in>set [''js'', ''css'', ''images'', ''fonts'', ''.vite''].
        \<not> existsSync ?bare (path_join [''/app/public'', d])"
      by code_simp
    show ?thesis using buildStart_cleans_output_directories [OF a b c s] x by simp
  qed
  let ?d = "Dir [(''app'', Dir [(''public'',
           Dir [(''css'', Dangling), (''js'', Dir []), (''keep.txt'', File ''kept'')])])]"
  have third: "\<exists>after. buildStart (sample_process\<lparr>disk := ?d\<rparr>) sample_plugin = Inr after \<and>
      lookup after [''app'', ''public''] =
        Some (Dir [(''css'', Dangling), (''keep.txt'', File ''kept'')])"
  proof -
    let ?p = "sample_process\<lparr>disk := ?d\<rparr>"
    have a: "isAbsolute (cwd ?p)" by code_simp
    have c: "''/app/public'' = path_resolve (cwd ?p) [LUCKY_ROOT ?p, ''public'']" by code_simp
    have n: "\<forall>d\<in>set [''js'', ''css'', ''images'', ''fonts'', ''.vite''].
        rm_refused ?p ([''app'', ''public''] @ [d]) = None"
      by (simp add: sample_process_def)
    have l: "lookup (disk ?p) [''app'', ''public''] =
        Some (Dir [(''css'', Dangling), (''js'', Dir []), (''keep.txt'', File ''kept'')])"
      by code_simp
    note t = buildStart_cleans_output_directories [OF a b c s]
    have "\<exists>after. buildStart ?p sample_plugin = Inr after"
    proof (cases "buildStart ?p sample_plugin")
      case (Inl e)
      then obtain d where "d \<in> set [''js'', ''css'', ''images'', ''fonts'', ''.vite'']"
        and "rm_refused ?p ([''app'', ''public''] @ [d]) = Some e"
        using t by blast
      then show ?thesis using n by auto
    next
      case (Inr after)
      then show ?thesis by simp
    qed
    then obtain after where r: "buildStart ?p sample_plugin = Inr after" by blast
    from t r have "\<forall>es. lookup (disk ?p) [''app'', ''public''] = Some (Dir es) \<longrightarrow>
        lookup after [''app'', ''public''] =
          Some (Dir (filter (\<lambda>e. fst e \<notin> set [''js'', ''css'', ''images'', ''fonts'', ''.vite''] \<or>
                                  map_of es (fst e) = Some Dangling) es))"
      by blast
    then have "lookup after [''app'', ''public''] =
        Some (Dir [(''css'', Dangling), (''keep.txt'', File ''kept'')])"
      using l by simp
    then show ?thesis using r by blast
  qed
  let ?q = "sample_process\<lparr>disk := ?d,
        rm_refused := (\<lambda>place. if place = [''app'', ''public'', ''js''] then Some EACCES else None)\<rparr>"
  have fourth: "buildStart ?q sample_plugin = Inl EACCES"
  proof -
    have a: "isAbsolute (cwd ?q)" by code_simp
    have c: "''/app/public'' = path_resolve (cwd ?q) [LUCKY_ROOT ?q, ''public'']" by code_simp
    have x: "existsSync ?q (path_join [''/app/public'', ''js''])" by code_simp
    have r: "rm_refused ?q ([''app'', ''public''] @ [''js'']) \<noteq> None" by simp
    note t = buildStart_cleans_output_directories [OF a b c s]
    have "\<exists>d\<in>set [''js'', ''css'', ''images'', ''fonts'', ''.vite''].
        existsSync ?q (path_join [''/app/public'', d]) \<and>
        rm_refused ?q ([''app'', ''public''] @ [d]) \<noteq> None"
      using x r by (intro bexI [of _ "''js''"]) simp_all
    then obtain e where e: "buildStart ?q sample_plugin = Inl e" using t by blast
    then obtain d where "d \<in> set [''js'', ''css'', ''images'', ''fonts'', ''.vite'']"
      and "rm_refused ?q ([''app'', ''public''] @ [d]) = Some e"
      using t by blast
    then have "e = EACCES" by (auto split: if_splits)
    then show ?thesis using e by simp
  qed
  show ?thesis using first second third fourth by blast
qed

text \<open>
  A regular file named \<^verbatim>\<open>js\<close> is not a sub-directory, and it is removed.
\<close>

theorem buildStart_cleans_output_directories_counterexample:
  "lookup (Dir [(''app'', Dir [(''public'', Dir [(''js'', File ''notes''),
                                                  (''keep.txt'', File ''kept'')])])])
     [''app'', ''public'', ''js''] = Some (File ''notes'') \<and>
   buildStart
     (sample_process\<lparr>disk := Dir [(''app'', Dir [(''public'', Dir [(''js'', File ''notes''),
                                                  (''keep.txt'', File ''kept'')])])]\<rparr>)
     sample_plugin =
   Inr (Dir [(''app'', Dir [(''public'', Dir [(''keep.txt'', File ''kept'')])])])"
  by code_simp

subsection \<open>\<^verbatim>\<open>resolveAliases\<close>\<close>

text \<open>
  \<^bold>\<open>C6\<close> (aliases). An absent list and the empty list give no alias and no error. A list
  of names gives one alias for each name, in the order of the list: \<^verbatim>\<open>@\<close> followed by the
  name, for \<^verbatim>\<open>src/name\<close> resolved against the working directory. When the working
  directory is absolute and the names are plain, that is the absolute path made of the
  working directory, \<^verbatim>\<open>src\<close> and the name.
\<close>

theorem resolveAliases_entries:
  "resolveAliases ps None = Inr [] \<and>
   resolveAliases ps (Some (JArr [])) = Inr [] \<and>
   resolveAliases ps (Some (JArr (map JStr names))) =
     Inr (map (\<lambda>n. \<lparr>alias_find = ''@'' @ n,
                     alias_replacement = path_resolve (cwd ps) [LUCKY_ROOT ps, ''src/'' @ n]\<rparr>)
            names) \<and>
   (isAbsolute (cwd ps) \<longrightarrow> (\<forall>n\<in>set names. is_name n) \<longrightarrow>
      resolveAliases ps (Some (JArr (map JStr names))) =
        Inr (map (\<lambda>n. \<lparr>alias_find = ''@'' @ n,
                        alias_replacement =
                          abs_path (path_segments (path_resolve (cwd ps) []) @ [''src'', n])\<rparr>)
               names))"
proof (intro conjI impI)
  show "resolveAliases ps None = Inr []" by simp
  show "resolveAliases ps (Some (JArr [])) = Inr []" by simp
  show "resolveAliases ps (Some (JArr (map JStr names))) =
     Inr (map (\<lambda>n. \<lparr>alias_find = ''@'' @ n,
                     alias_replacement = path_resolve (cwd ps) [LUCKY_ROOT ps, ''src/'' @ n]\<rparr>)
            names)"
    by (simp add: resolveAliases_map_strings)
next
  assume "isAbsolute (cwd ps)" and "\<forall>n\<in>set names. is_name n"
  then have "\<forall>n\<in>set names. path_resolve (cwd ps) [LUCKY_ROOT ps, ''src/'' @ n] =
      abs_path (path_segments (path_resolve (cwd ps) []) @ [''src'', n])"
    using path_resolve_src [of "cwd ps"] by (simp add: LUCKY_ROOT_def)
  then show "resolveAliases ps (Some (JArr (map JStr names))) =
        Inr (map (\<lambda>n. \<lparr>alias_find = ''@'' @ n,
                        alias_replacement =
                          abs_path (path_segments (path_resolve (cwd ps) []) @ [''src'', n])\<rparr>)
               names)"
    by (simp add: resolveAliases_map_strings)
qed

theorem resolveAliases_entries_witness:
  "resolveAliases sample_process None = Inr [] \<and>
   resolveAliases sample_process (Some (JArr [JStr ''js'', JStr ''css''])) =
     Inr [\<lparr>alias_find = ''@js'', alias_replacement = ''/app/src/js''\<rparr>,
          \<lparr>alias_find = ''@css'', alias_replacement = ''/app/src/css''\<rparr>]"
proof -
  have a: "isAbsolute (cwd sample_process)" by code_simp
  have n: "\<forall>n\<in>set [''js'', ''css'']. is_name n" by (simp add: is_name_def)
  have s: "path_segments (path_resolve (cwd sample_process) []) = [''app'']" by code_simp
  show ?thesis
    using resolveAliases_entries [of sample_process "[''js'', ''css'']"] a n
    by (simp add: s abs_path_def)
qed

subsection \<open>Source maps\<close>

text \<open>
  \<^bold>\<open>C7\<close> (source maps). The active environment is the value of \<^verbatim>\<open>LUCKY_ENV\<close>, or
  \<^verbatim>\<open>development\<close> when the variable is unset or empty. Whenever the \<^verbatim>\<open>config\<close> hook returns,
  source maps are on exactly when the name of the active environment contains neither
  \<^verbatim>\<open>test\<close> nor \<^verbatim>\<open>development\<close>.
\<close>

theorem sourcemap_policy:
  "LUCKY_ENV ps =
     (case env_LUCKY_ENV ps of None \<Rightarrow> ''development''
      | Some v \<Rightarrow> if v = [] then ''development'' else v) \<and>
   (\<forall>c. config_hook ps pl = Inr c \<longrightarrow>
      build_sourcemap c =
        (\<not> sublist ''test'' (LUCKY_ENV ps) \<and> \<not> sublist ''development'' (LUCKY_ENV ps)))"
  using config_hook_fields(4) [of ps pl]
  by (simp add: env_regex_test LUCKY_ENV_def)

theorem sourcemap_policy_witness:
  "(\<exists>c. config_hook sample_process sample_plugin = Inr c \<and> \<not> build_sourcemap c) \<and>
   (\<exists>c. config_hook (sample_process\<lparr>env_LUCKY_ENV := Some ''production''\<rparr>) sample_plugin = Inr c \<and>
        build_sourcemap c)"
proof -
  obtain c where c: "config_hook sample_process sample_plugin = Inr c"
    using sample_config_hook by blast
  have e: "LUCKY_ENV sample_process = ''development''" by code_simp
  have 1: "\<not> build_sourcemap c"
    using sourcemap_policy [of sample_process sample_plugin] c e by simp
  let ?p = "sample_process\<lparr>env_LUCKY_ENV := Some ''production''\<rparr>"
  have "case config_hook ?p sample_plugin of Inl e \<Rightarrow> False | Inr c \<Rightarrow> True"
    by code_simp
  then obtain c' where c': "config_hook ?p sample_plugin = Inr c'"
    by (cases "config_hook ?p sample_plugin") simp_all
  have e': "LUCKY_ENV ?p = ''production''" by code_simp
  have t: "\<not> sublist ''test'' ''production''" "\<not> sublist ''development'' ''production''"
    by code_simp+
  have 2: "build_sourcemap c'"
    using sourcemap_policy [of ?p sample_plugin] c' e' t by simp
  show ?thesis using c 1 c' 2 by blast
qed

text \<open>
  The environment \<^verbatim>\<open>latest\<close> is neither \<^verbatim>\<open>development\<close> nor \<^verbatim>\<open>test\<close>, and source maps are
  off: its name contains \<^verbatim>\<open>test\<close>.
\<close>

theorem sourcemap_policy_counterexample:
  "LUCKY_ENV (sample_process\<lparr>env_LUCKY_ENV := Some ''latest''\<rparr>) = ''latest'' \<and>
   ''latest'' \<noteq> ''development'' \<and> ''latest'' \<noteq> ''test'' \<and>
   map_sum id build_sourcemap
     (config_hook (sample_process\<lparr>env_LUCKY_ENV := Some ''latest''\<rparr>) sample_plugin) = Inr False"
  by code_simp

subsection \<open>\<^verbatim>\<open>findEntryScripts\<close>\<close>

text \<open>
  \<^bold>\<open>C9\<close> (entry scripts). Let the working directory be absolute and \<open>dir\<close> be the names
  along the resolved root. If \<open>dir\<close> is a directory on the disk, the result is the list of
  the absolute paths of its entries, one for each entry and in the order of the listing,
  whatever their names end in. If nothing exists at \<open>dir\<close>, the call fails, with \<open>ENOENT\<close>
  or with \<open>ENOTDIR\<close>, and with \<open>ENOENT\<close> when no part of the path is a file.
\<close>

theorem findEntryScripts_lists_children:
  assumes "isAbsolute (cwd ps)"
    and "dir = path_segments (path_resolve (cwd ps) [root])"
  shows "(\<forall>es. lookup (disk ps) dir = Some (Dir es) \<longrightarrow> (\<forall>e\<in>set es. is_name (fst e)) \<longrightarrow>
            findEntryScripts ps root = Inr (map (\<lambda>e. abs_path (dir @ [fst e])) es)) \<and>
         (lookup (disk ps) dir = None \<longrightarrow>
            findEntryScripts ps root = Inl ENOENT \<or> findEntryScripts ps root = Inl ENOTDIR) \<and>
         (lookup (disk ps) dir = None \<longrightarrow>
            (\<forall>p c. prefix p dir \<longrightarrow> lookup (disk ps) p \<noteq> Some (File c)) \<longrightarrow>
            findEntryScripts ps root = Inl ENOENT)"
proof -
  obtain segs where segs: "\<forall>s\<in>set segs. is_name s"
    and r: "path_resolve (cwd ps) [root] = abs_path segs"
    using path_resolve_absolute [OF assms(1)] by blast
  have dir: "dir = segs" by (simp only: assms(2) r path_segments_abs_path [OF segs])
  have child: "is_name n \<Longrightarrow> path_resolve (cwd ps) [path_join [root, n]] = abs_path (segs @ [n])" for n
  proof -
    assume "is_name n"
    then obtain segs' where s': "\<forall>s\<in>set segs'. is_name s"
      "path_resolve (cwd ps) [root] = abs_path segs'"
      "path_resolve (cwd ps) [path_join [root, n]] = abs_path (segs' @ [n])"
      using path_resolve_child [OF assms(1)] by blast
    have "abs_path segs' = abs_path segs" using r s'(2) by (rule box_equals) simp_all
    then have "path_segments (abs_path segs') = path_segments (abs_path segs)"
      by (rule arg_cong)
    then have "segs' = segs"
      by (simp only: path_segments_abs_path [OF segs] path_segments_abs_path [OF s'(1)])
    then show ?thesis using s'(3) by (simp only:)
  qed
  have a: "\<forall>es. lookup (disk ps) segs = Some (Dir es) \<longrightarrow> (\<forall>e\<in>set es. is_name (fst e)) \<longrightarrow>
            findEntryScripts ps root = Inr (map (\<lambda>e. abs_path (segs @ [fst e])) es)"
  proof (intro allI impI)
    fix es assume l: "lookup (disk ps) segs = Some (Dir es)" and nm: "\<forall>e\<in>set es. is_name (fst e)"
    have "realpath ps (abs_path segs) = Inr segs"
    proof (cases "segs = []")
      case True
      then show ?thesis using l realpath_root [of ps es] by simp
    next
      case False
      then show ?thesis using realpath_found [OF segs False] l by simp
    qed
    then have "readdirSync ps (abs_path segs) = Inr (map fst es)"
      using l by (simp add: readdirSync_def)
    then have "findEntryScripts ps root =
        Inr (map (\<lambda>entry. path_resolve (cwd ps) [path_join [root, entry]]) (map fst es))"
      using r by (simp add: findEntryScripts_def)
    moreover have "map (\<lambda>entry. path_resolve (cwd ps) [path_join [root, entry]]) (map fst es) =
        map (\<lambda>e. abs_path (segs @ [fst e])) es"
      using nm child by simp
    ultimately show "findEntryScripts ps root = Inr (map (\<lambda>e. abs_path (segs @ [fst e])) es)"
      by simp
  qed
  have fail: "realpath ps (abs_path segs) = Inl e \<Longrightarrow> findEntryScripts ps root = Inl e" for e
    using r by (simp add: findEntryScripts_def readdirSync_def)
  have b: "lookup (disk ps) segs = None \<longrightarrow>
            findEntryScripts ps root = Inl ENOENT \<or> findEntryScripts ps root = Inl ENOTDIR"
  proof
    assume "lookup (disk ps) segs = None"
    then obtain e where e: "realpath ps (abs_path segs) = Inl e"
      using realpath_missing [OF segs] by blast
    then show "findEntryScripts ps root = Inl ENOENT \<or> findEntryScripts ps root = Inl ENOTDIR"
      using fail [OF e] realpath_errors [OF e] by auto
  qed
  have c: "lookup (disk ps) segs = None \<longrightarrow>
            (\<forall>p c. prefix p segs \<longrightarrow> lookup (disk ps) p \<noteq> Some (File c)) \<longrightarrow>
            findEntryScripts ps root = Inl ENOENT"
    using realpath_ENOENT [OF segs] fail by blast
  show ?thesis unfolding dir by (intro conjI a b c)
qed

theorem findEntryScripts_lists_children_witness:
  "findEntryScripts sample_process ''/app/src/js/entry'' =
     Inr [''/app/src/js/entry/main.js'', ''/app/src/js/entry/admin.js''] \<and>
   findEntryScripts sample_process ''src/js/pages'' = Inl ENOENT"
proof -
  have a: "isAbsolute (cwd sample_process)" by code_simp
  have s1: "[''app'', ''src'', ''js'', ''entry''] =
      path_segments (path_resolve (cwd sample_process) [''/app/src/js/entry''])" by code_simp
  have s2: "[''app'', ''src'', ''js'', ''pages''] =
      path_segments (path_resolve (cwd sample_process) [''src/js/pages''])" by code_simp
  have l1: "lookup (disk sample_process) [''app'', ''src'', ''js'', ''entry''] =
      Some (Dir [(''main.js'', File ''// main''), (''admin.js'', File ''// admin'')])"
    by code_simp
  have n1: "\<forall>e\<in>set [(''main.js'', File ''// main''), (''admin.js'', File ''// admin'')]. is_name (fst e)"
    by (simp add: is_name_def)
  have l2: "lookup (disk sample_process) [''app'', ''src'', ''js'', ''pages''] = None"
    by code_simp
  have f2: "\<forall>p c. prefix p [''app'', ''src'', ''js'', ''pages''] \<longrightarrow>
      lookup (disk sample_process) p \<noteq> Some (File c)"
  proof (intro allI impI)
    fix p c assume "prefix p [''app'', ''src'', ''js'', ''pages'']"
    then have "p \<in> set (prefixes [''app'', ''src'', ''js'', ''pages''])"
      by (simp only: in_set_prefixes)
    then consider "p = []" | "p = [''app'']" | "p = [''app'', ''src'']"
      | "p = [''app'', ''src'', ''js'']" | "p = [''app'', ''src'', ''js'', ''pages'']"
      by auto
    then show "lookup (disk sample_process) p \<noteq> Some (File c)"
      by cases (simp_all add: sample_process_def sample_disk_def)
  qed
  have 1: "findEntryScripts sample_process ''/app/src/js/entry'' =
     Inr [''/app/src/js/entry/main.js'', ''/app/src/js/entry/admin.js'']"
    using findEntryScripts_lists_children [OF a s1] l1 n1 by (simp add: abs_path_def)
  have 2: "findEntryScripts sample_process ''src/js/pages'' = Inl ENOENT"
    using findEntryScripts_lists_children [OF a s2] l2 f2 by blast
  show ?thesis using 1 2 by simp
qed

end
